theory Spec2Isabelle
  imports Complex_Main
begin

section \<open>Model of the renderer\<close>

subsection \<open>JavaScript numbers and strings\<close>

text \<open>
  A JavaScript number is modelled as \<open>NaN\<close>, an infinity, or an exact real. Rounding
  to the nearest double is not modelled, so arithmetic on finite numbers is exact, with
  one exception: a result whose magnitude reaches \<open>2^1024 - 2^970\<close>, where rounding
  to the nearest double gives an infinity, is that infinity. The same holds for the
  numbers that \<open>parseInt\<close> and \<open>parseFloat\<close> read. There is one zero (the sign of
  zero is not modelled); a division by zero takes the zero as positive. Conversion to
  single precision when a number is stored into a \<open>Float32Array\<close> is not modelled.
  Arithmetic propagates \<open>NaN\<close>; every comparison with \<open>NaN\<close> is false.
\<close>

datatype jsnum = NaN | Num real | PosInf | NegInf

definition overflow_threshold :: real where
  "overflow_threshold = 2 ^ 1024 - 2 ^ 970"

text \<open>The number that an exact result becomes.\<close>

definition number :: "real \<Rightarrow> jsnum" where
  "number r =
     (if overflow_threshold \<le> r then PosInf
      else if r \<le> - overflow_threshold then NegInf
      else Num r)"

text \<open>The sign of a number, for products and quotients with an infinity: 0 for zero
  and for \<open>NaN\<close>.\<close>

fun jsign :: "jsnum \<Rightarrow> int" where
  "jsign NaN = 0"
| "jsign (Num a) = (if a = 0 then 0 else if 0 < a then 1 else - 1)"
| "jsign PosInf = 1"
| "jsign NegInf = - 1"

instantiation jsnum :: "{plus, minus, times, inverse, ord}"
begin

fun plus_jsnum :: "jsnum \<Rightarrow> jsnum \<Rightarrow> jsnum" where
  "plus_jsnum (Num a) (Num b) = number (a + b)"
| "plus_jsnum NaN _ = NaN"
| "plus_jsnum _ NaN = NaN"
| "plus_jsnum PosInf NegInf = NaN"
| "plus_jsnum NegInf PosInf = NaN"
| "plus_jsnum PosInf _ = PosInf"
| "plus_jsnum _ PosInf = PosInf"
| "plus_jsnum NegInf _ = NegInf"
| "plus_jsnum _ NegInf = NegInf"

fun minus_jsnum :: "jsnum \<Rightarrow> jsnum \<Rightarrow> jsnum" where
  "minus_jsnum (Num a) (Num b) = number (a - b)"
| "minus_jsnum NaN _ = NaN"
| "minus_jsnum _ NaN = NaN"
| "minus_jsnum PosInf PosInf = NaN"
| "minus_jsnum NegInf NegInf = NaN"
| "minus_jsnum PosInf _ = PosInf"
| "minus_jsnum _ NegInf = PosInf"
| "minus_jsnum NegInf _ = NegInf"
| "minus_jsnum _ PosInf = NegInf"

fun times_jsnum :: "jsnum \<Rightarrow> jsnum \<Rightarrow> jsnum" where
  "times_jsnum (Num a) (Num b) = number (a * b)"
| "times_jsnum NaN _ = NaN"
| "times_jsnum _ NaN = NaN"
| "times_jsnum u v =
     (if jsign u = 0 \<or> jsign v = 0 then NaN
      else if jsign u = jsign v then PosInf else NegInf)"

fun divide_jsnum :: "jsnum \<Rightarrow> jsnum \<Rightarrow> jsnum" where
  "divide_jsnum (Num a) (Num b) =
     (if b = 0 then (if a = 0 then NaN else if 0 < a then PosInf else NegInf)
      else number (a / b))"
| "divide_jsnum NaN _ = NaN"
| "divide_jsnum _ NaN = NaN"
| "divide_jsnum (Num a) _ = Num 0"
| "divide_jsnum PosInf (Num b) = (if 0 \<le> b then PosInf else NegInf)"
| "divide_jsnum NegInf (Num b) = (if 0 \<le> b then NegInf else PosInf)"
| "divide_jsnum _ _ = NaN"

fun inverse_jsnum :: "jsnum \<Rightarrow> jsnum" where
  "inverse_jsnum (Num a) = (if a = 0 then PosInf else number (1 / a))"
| "inverse_jsnum NaN = NaN"
| "inverse_jsnum _ = Num 0"

fun less_jsnum :: "jsnum \<Rightarrow> jsnum \<Rightarrow> bool" where
  "less_jsnum (Num a) (Num b) = (a < b)"
| "less_jsnum NaN _ = False"
| "less_jsnum _ NaN = False"
| "less_jsnum PosInf _ = False"
| "less_jsnum _ NegInf = False"
| "less_jsnum _ _ = True"

fun less_eq_jsnum :: "jsnum \<Rightarrow> jsnum \<Rightarrow> bool" where
  "less_eq_jsnum (Num a) (Num b) = (a \<le> b)"
| "less_eq_jsnum NaN _ = False"
| "less_eq_jsnum _ NaN = False"
| "less_eq_jsnum PosInf PosInf = True"
| "less_eq_jsnum NegInf NegInf = True"
| "less_eq_jsnum PosInf _ = False"
| "less_eq_jsnum _ NegInf = False"
| "less_eq_jsnum _ _ = True"

instance ..

end

text \<open>
  A string is a list of 8-bit characters. Of the characters that JavaScript counts as
  white space (\<open>\s\<close> in a regular expression, and what \<open>parseInt\<close> and
  \<open>parseFloat\<close> skip), these are the ones below 256.
\<close>

definition isWhiteSpace :: "char \<Rightarrow> bool" where
  "isWhiteSpace c \<longleftrightarrow> (of_char c :: nat) \<in> {9, 10, 11, 12, 13, 32, 160}"

definition isDigit :: "char \<Rightarrow> bool" where
  "isDigit c \<longleftrightarrow> 48 \<le> (of_char c :: nat) \<and> (of_char c :: nat) \<le> 57"

text \<open>The value of a character as a digit of \<open>parseInt\<close>; 36 when it is none.\<close>

definition digitValue :: "char \<Rightarrow> nat" where
  "digitValue c =
     (let n = (of_char c :: nat) in
      if 48 \<le> n \<and> n \<le> 57 then n - 48
      else if 97 \<le> n \<and> n \<le> 122 then n - 97 + 10
      else if 65 \<le> n \<and> n \<le> 90 then n - 65 + 10
      else 36)"

definition digitsValue :: "nat \<Rightarrow> string \<Rightarrow> nat" where
  "digitsValue R Z = foldl (\<lambda>acc c. acc * R + digitValue c) 0 Z"

text \<open>\<open>String.prototype.startsWith\<close> and \<open>slice(b, e)\<close> for \<open>0 \<le> b \<le> e\<close>.\<close>

definition startsWith :: "string \<Rightarrow> string \<Rightarrow> bool" where
  "startsWith s p \<longleftrightarrow> take (length p) s = p"

definition slice :: "nat \<Rightarrow> nat \<Rightarrow> string \<Rightarrow> string" where
  "slice b e s = take (e - b) (drop b s)"

text \<open>
  \<open>parseInt(string, radix)\<close> of ECMAScript: skip white space, read a sign, settle the
  radix (an omitted radix is 10, or 16 after a \<open>0x\<close> prefix; the prefix is also dropped
  when the radix is 16), read the longest run of digits of that radix. No digit at all
  gives \<open>NaN\<close>. The digits denote an exact integer; the result is the number it
  becomes.
\<close>

definition parseInt :: "string \<Rightarrow> nat option \<Rightarrow> jsnum" where
  "parseInt str radix =
     (let S0 = dropWhile isWhiteSpace str;
          sign = (if S0 \<noteq> [] \<and> hd S0 = CHR ''-'' then - 1 else 1 :: real);
          S1 = (if S0 \<noteq> [] \<and> (hd S0 = CHR ''+'' \<or> hd S0 = CHR ''-'') then tl S0 else S0);
          R0 = (case radix of None \<Rightarrow> 0 | Some r \<Rightarrow> r)
      in if R0 \<noteq> 0 \<and> (R0 < 2 \<or> 36 < R0) then NaN
         else
           let stripPrefix = (R0 = 0 \<or> R0 = 16);
               R1 = (if R0 = 0 then 10 else R0);
               hasPrefix = (stripPrefix \<and> (startsWith S1 ''0x'' \<or> startsWith S1 ''0X''));
               R = (if hasPrefix then 16 else R1);
               S2 = (if hasPrefix then drop 2 S1 else S1);
               Z = takeWhile (\<lambda>c. digitValue c < R) S2
           in if Z = [] then NaN else number (sign * real (digitsValue R Z)))"

text \<open>
  \<open>parseFloat\<close>, on the strings the capture group \<open>[\d.]+\<close> can hand it: digits and
  dots only, so the sign, exponent and \<open>Infinity\<close> productions of the grammar cannot
  occur. The longest prefix that is a decimal literal is read: digits with an optional
  fraction, or a dot followed by digits.
\<close>

definition parseFloat :: "string \<Rightarrow> jsnum" where
  "parseFloat str =
     (let S = dropWhile isWhiteSpace str;
          ip = takeWhile isDigit S;
          rest = dropWhile isDigit S;
          fp = (case rest of [] \<Rightarrow> [] | c # r \<Rightarrow> if c = CHR ''.'' then takeWhile isDigit r else [])
      in if ip = [] \<and> fp = [] then NaN
         else number (real (digitsValue 10 ip) + real (digitsValue 10 fp) / 10 ^ length fp))"

subsection \<open>Colour parsing\<close>

text \<open>
  The regular expression \<open>/hsl\(([\d.]+)\s*,\s*(\d+)%\s*,\s*(\d+)%\)/\<close>.
  Every greedy run is followed by a character outside its own class (white space or a
  comma after \<open>[\d.]+\<close>, a comma or a digit after \<open>\s*\<close>, a percent sign after
  \<open>\d+\<close>), so backtracking into a run never helps and the longest run is the only
  candidate. \<open>hsl_match_here\<close> matches at the start of the string and returns the three
  captures; \<open>hsl_match\<close> is \<open>String.prototype.match\<close>: the leftmost position
  where the pattern matches.
\<close>

definition skip_comma :: "string \<Rightarrow> string option" where
  "skip_comma s =
     (case dropWhile isWhiteSpace s of
        [] \<Rightarrow> None
      | c # r \<Rightarrow> if c = CHR '','' then Some (dropWhile isWhiteSpace r) else None)"

definition hsl_match_here :: "string \<Rightarrow> (string \<times> string \<times> string) option" where
  "hsl_match_here s =
     (if \<not> startsWith s ''hsl('' then None
      else
        let s1 = drop 4 s;
            m1 = takeWhile (\<lambda>c. isDigit c \<or> c = CHR ''.'') s1;
            s2 = dropWhile (\<lambda>c. isDigit c \<or> c = CHR ''.'') s1
        in if m1 = [] then None
           else case skip_comma s2 of
             None \<Rightarrow> None
           | Some s3 \<Rightarrow>
               let m2 = takeWhile isDigit s3; s4 = dropWhile isDigit s3
               in if m2 = [] \<or> \<not> startsWith s4 ''%'' then None
                  else case skip_comma (drop 1 s4) of
                    None \<Rightarrow> None
                  | Some s5 \<Rightarrow>
                      let m3 = takeWhile isDigit s5; s6 = dropWhile isDigit s5
                      in if m3 = [] \<or> \<not> startsWith s6 ''%)'' then None
                         else Some (m1, m2, m3))"

fun hsl_match :: "string \<Rightarrow> (string \<times> string \<times> string) option" where
  "hsl_match [] = hsl_match_here []"
| "hsl_match (c # cs) =
     (case hsl_match_here (c # cs) of Some m \<Rightarrow> Some m | None \<Rightarrow> hsl_match cs)"

text \<open>The arrow function \<open>hue2rgb\<close> inside \<open>parseColor\<close>.\<close>

definition hue2rgb :: "jsnum \<Rightarrow> jsnum \<Rightarrow> jsnum \<Rightarrow> jsnum" where
  "hue2rgb p q t0 =
     (let t1 = (if t0 < Num 0 then t0 + Num 1 else t0);
          t = (if Num 1 < t1 then t1 - Num 1 else t1)
      in if t < Num (1 / 6) then p + (q - p) * Num 6 * t
         else if t < Num (1 / 2) then q
         else if t < Num (2 / 3) then p + (q - p) * (Num (2 / 3) - t) * Num 6
         else p)"

text \<open>
  \<open>parseColor(color)\<close> for a string argument. The HSL branch returns only when the
  pattern matched; otherwise control falls through to the hex test and then to the
  default.
\<close>

definition parseColor :: "string \<Rightarrow> jsnum list" where
  "parseColor color =
     (let match = (if startsWith color ''hsl'' then hsl_match color else None) in
      if match \<noteq> None then
        (let h = parseFloat (fst (the match)) / Num 360;
             s = parseInt (fst (snd (the match))) None / Num 100;
             l = parseInt (snd (snd (the match))) None / Num 100
         in if s = Num 0 then [l, l, l, Num 1]
            else
              (let q = (if l < Num (1 / 2) then l * (Num 1 + s) else l + s - l * s);
                   p = Num 2 * l - q
               in [hue2rgb p q (h + Num (1 / 3)), hue2rgb p q h,
                   hue2rgb p q (h - Num (1 / 3)), Num 1]))
      else if startsWith color ''#'' then
        [parseInt (slice 1 3 color) (Some 16) / Num 255,
         parseInt (slice 3 5 color) (Some 16) / Num 255,
         parseInt (slice 5 7 color) (Some 16) / Num 255,
         Num 1]
      else [Num 0, Num 0, Num 0, Num 1])"

subsection \<open>The rendering context\<close>

text \<open>
  The WebGL context is modelled by the part of its state that \<open>drawParticles\<close>
  touches, together with a log of the commands it received, oldest first. The four
  buffer objects that \<open>initBuffers\<close> creates are distinct objects; they are named by
  the fields that hold them. Attribute locations are the indices that
  \<open>getAttribLocation\<close> returned for the four attributes of the vertex shader.
  Besides the log the state keeps what decides whether a draw command draws: the
  enabled attribute arrays with their buffers, sizes and divisors, the contents of the
  buffers, and the errors raised. It also keeps the enabled capabilities, of which
  \<open>clear\<close> sets the depth test. Rasterisation and the frame buffer are not
  modelled.
\<close>

datatype buffer = CircleBuffer | InstancePositionBuffer | InstanceSizeBuffer | InstanceColorBuffer

datatype usage = STATIC_DRAW | DYNAMIC_DRAW

datatype draw_mode = POINTS | LINES | TRIANGLES | TRIANGLE_STRIP | TRIANGLE_FAN

datatype capability = BLEND | DEPTH_TEST

datatype clear_bit = COLOR_BUFFER_BIT | DEPTH_BUFFER_BIT

datatype gl_error = INVALID_OPERATION

datatype gl_call =
    UseProgram nat
  | Uniform2f nat nat nat
  | BindBuffer buffer
  | BufferData "jsnum list" usage
  | EnableVertexAttribArray nat
  | VertexAttribPointer nat nat
  | VertexAttribDivisorANGLE nat nat
  | DrawArraysInstancedANGLE draw_mode nat nat nat
  | DrawArrays draw_mode nat nat
  | DisableVertexAttribArray nat
  | Viewport nat nat nat nat
  | Enable capability
  | Clear "clear_bit list"

record gl_state =
  calls :: "gl_call list"
  array_buffer :: "buffer option"
  store :: "buffer \<Rightarrow> jsnum list"
  attrib_enabled :: "nat \<Rightarrow> bool"
  attrib_buffer :: "nat \<Rightarrow> buffer option"
  attrib_size :: "nat \<Rightarrow> nat"
  divisor :: "nat \<Rightarrow> nat"
  cap_enabled :: "capability \<Rightarrow> bool"
  max_vertex_attribs :: nat
  errors :: "gl_error list"
  drawn :: "gl_call list"

definition emit :: "gl_call \<Rightarrow> gl_state \<Rightarrow> gl_state" where
  "emit c g = g\<lparr>calls := calls g @ [c]\<rparr>"

definition useProgram :: "nat \<Rightarrow> gl_state \<Rightarrow> gl_state" where
  "useProgram prog g = emit (UseProgram prog) g"

definition uniform2f :: "nat \<Rightarrow> nat \<Rightarrow> nat \<Rightarrow> gl_state \<Rightarrow> gl_state" where
  "uniform2f loc w h g = emit (Uniform2f loc w h) g"

definition bindBuffer :: "buffer \<Rightarrow> gl_state \<Rightarrow> gl_state" where
  "bindBuffer b g = emit (BindBuffer b) (g\<lparr>array_buffer := Some b\<rparr>)"

text \<open>\<open>bufferData\<close> replaces the data store of the buffer bound to \<open>ARRAY_BUFFER\<close>;
  with no buffer bound the context raises a GL error and stores nothing.\<close>

definition bufferData :: "jsnum list \<Rightarrow> usage \<Rightarrow> gl_state \<Rightarrow> gl_state" where
  "bufferData d u g =
     emit (BufferData d u)
       (case array_buffer g of
          None \<Rightarrow> g
        | Some b \<Rightarrow> g\<lparr>store := (store g)(b := d)\<rparr>)"

definition enableVertexAttribArray :: "nat \<Rightarrow> gl_state \<Rightarrow> gl_state" where
  "enableVertexAttribArray i g =
     emit (EnableVertexAttribArray i) (g\<lparr>attrib_enabled := (attrib_enabled g)(i := True)\<rparr>)"

definition disableVertexAttribArray :: "nat \<Rightarrow> gl_state \<Rightarrow> gl_state" where
  "disableVertexAttribArray i g =
     emit (DisableVertexAttribArray i) (g\<lparr>attrib_enabled := (attrib_enabled g)(i := False)\<rparr>)"

text \<open>\<open>vertexAttribPointer(index, size, FLOAT, false, 0, 0)\<close>: the attribute reads
  \<open>size\<close> floats per element from the buffer bound at the time of the call.\<close>

definition vertexAttribPointer :: "nat \<Rightarrow> nat \<Rightarrow> gl_state \<Rightarrow> gl_state" where
  "vertexAttribPointer i n g =
     emit (VertexAttribPointer i n)
       (g\<lparr>attrib_buffer := (attrib_buffer g)(i := array_buffer g),
          attrib_size := (attrib_size g)(i := n)\<rparr>)"

definition vertexAttribDivisorANGLE :: "nat \<Rightarrow> nat \<Rightarrow> gl_state \<Rightarrow> gl_state" where
  "vertexAttribDivisorANGLE i d g =
     emit (VertexAttribDivisorANGLE i d) (g\<lparr>divisor := (divisor g)(i := d)\<rparr>)"

text \<open>
  The range check of WebGL 1 on a draw command (section 6.6 of its specification,
  Enabled Vertex Attributes and Range Checking): every enabled attribute array needs a
  buffer, and the buffer must hold every element that the command reads; otherwise
  the command raises \<open>INVALID_OPERATION\<close> and draws nothing. An array with divisor 0
  is read once per vertex, an array with divisor \<open>d > 0\<close> once per \<open>d\<close> instances.
  All enabled arrays are taken to be read by the program, as the four of this renderer
  are. \<open>drawn\<close> lists the commands that passed the check.
\<close>

definition attrib_in_range :: "gl_state \<Rightarrow> nat \<Rightarrow> nat \<Rightarrow> bool" where
  "attrib_in_range g i n =
     (case attrib_buffer g i of
        None \<Rightarrow> False
      | Some b \<Rightarrow> n * attrib_size g i \<le> length (store g b))"

definition fetch_in_range :: "gl_state \<Rightarrow> nat \<Rightarrow> nat \<Rightarrow> bool" where
  "fetch_in_range g vertices instances =
     list_all
       (\<lambda>i. if attrib_enabled g i
            then attrib_in_range g i
                   (if divisor g i = 0 then vertices
                    else (instances + divisor g i - 1) div divisor g i)
            else True)
       [0..<max_vertex_attribs g]"

definition draw :: "gl_call \<Rightarrow> nat \<Rightarrow> nat \<Rightarrow> gl_state \<Rightarrow> gl_state" where
  "draw c vertices instances g =
     emit c
       (if fetch_in_range g vertices instances then g\<lparr>drawn := drawn g @ [c]\<rparr>
        else g\<lparr>errors := errors g @ [INVALID_OPERATION]\<rparr>)"

definition drawArraysInstancedANGLE :: "draw_mode \<Rightarrow> nat \<Rightarrow> nat \<Rightarrow> nat \<Rightarrow> gl_state \<Rightarrow> gl_state" where
  "drawArraysInstancedANGLE m first n primcount g =
     draw (DrawArraysInstancedANGLE m first n primcount) (first + n) primcount g"

definition drawArrays :: "draw_mode \<Rightarrow> nat \<Rightarrow> nat \<Rightarrow> gl_state \<Rightarrow> gl_state" where
  "drawArrays m first n g = draw (DrawArrays m first n) (first + n) 1 g"

definition viewport :: "nat \<Rightarrow> nat \<Rightarrow> nat \<Rightarrow> nat \<Rightarrow> gl_state \<Rightarrow> gl_state" where
  "viewport vx vy w h g = emit (Viewport vx vy w h) g"

definition enable :: "capability \<Rightarrow> gl_state \<Rightarrow> gl_state" where
  "enable cap g = emit (Enable cap) (g\<lparr>cap_enabled := (cap_enabled g)(cap := True)\<rparr>)"

text \<open>\<open>gl.clear(bits)\<close>; the contents of the cleared buffers are not modelled.\<close>

definition clear_buffers :: "clear_bit list \<Rightarrow> gl_state \<Rightarrow> gl_state" where
  "clear_buffers bits g = emit (Clear bits) g"

text \<open>A block of statements, executed in order.\<close>

fun run :: "(gl_state \<Rightarrow> gl_state) list \<Rightarrow> gl_state \<Rightarrow> gl_state" where
  "run [] g = g"
| "run (f # fs) g = run fs (f g)"

subsection \<open>The renderer and its draw call\<close>

record particle =
  particle_x :: jsnum
  particle_y :: jsnum
  particle_size :: jsnum
  particle_color :: string

record programInfo =
  program :: nat
  vertexPosition :: nat
  instancePosition :: nat
  instanceSize :: nat
  instanceColor :: nat
  resolution :: nat

text \<open>
  The fields of an \<open>OptimizedWebGLRenderer\<close> that \<open>drawParticles\<close> reads.
  \<open>has_gl\<close> is false when the constructor found no WebGL context and returned early;
  \<open>programInfo\<close> is \<open>None\<close> when \<open>initShaders\<close> returned before assigning it;
  \<open>instancedArraysExt\<close> tells whether \<open>getExtension\<close> returned an object.
\<close>

record renderer =
  has_gl :: bool
  canvas_width :: nat
  canvas_height :: nat
  instancedArraysExt :: bool
  programInfo :: "programInfo option"
  circleVertexCount :: nat

datatype error = TypeError | RangeError

text \<open>\<open>clear()\<close>, lines 193 to 200. It leaves the depth test enabled.\<close>

definition clear :: "renderer \<Rightarrow> gl_state \<Rightarrow> error + gl_state" where
  "clear this g =
     (if \<not> has_gl this then Inl TypeError
      else Inr (run [viewport 0 0 (canvas_width this) (canvas_height this),
                     enable DEPTH_TEST,
                     clear_buffers [COLOR_BUFFER_BIT, DEPTH_BUFFER_BIT]] g))"

text \<open>
  Reading a typed array or an array at an index: out of range the read is
  \<open>undefined\<close>, which a \<open>Float32Array\<close> stores as \<open>NaN\<close>. Writing to a typed
  array out of range does nothing, as \<open>xs[i := v]\<close> does.
\<close>

definition read_at :: "jsnum list \<Rightarrow> nat \<Rightarrow> jsnum" where
  "read_at xs i = (if i < length xs then xs ! i else NaN)"

text \<open>Lines 207 to 222: the three typed arrays, zero-filled, then the loop over the
  particles.\<close>

function fill_arrays ::
  "particle list \<Rightarrow> nat \<Rightarrow> jsnum list \<times> jsnum list \<times> jsnum list \<Rightarrow> jsnum list \<times> jsnum list \<times> jsnum list" where
  "fill_arrays particles i (positions, sizes, colors) =
     (if i < length particles then
        let particle = particles ! i;
            positions1 = positions[i * 2 := particle_x particle];
            positions2 = positions1[i * 2 + 1 := particle_y particle];
            sizes1 = sizes[i := particle_size particle];
            c = parseColor (particle_color particle);
            colors1 = colors[i * 4 := read_at c 0];
            colors2 = colors1[i * 4 + 1 := read_at c 1];
            colors3 = colors2[i * 4 + 2 := read_at c 2];
            colors4 = colors3[i * 4 + 3 := read_at c 3]
        in fill_arrays particles (i + 1) (positions2, sizes1, colors4)
      else (positions, sizes, colors))"
  by pat_completeness auto
termination
  by (relation "measure (\<lambda>(particles, i, _). length particles - i)") auto

declare fill_arrays.simps [simp del]

definition instance_arrays :: "particle list \<Rightarrow> jsnum list \<times> jsnum list \<times> jsnum list" where
  "instance_arrays particles =
     fill_arrays particles 0
       (replicate (length particles * 2) (Num 0),
        replicate (length particles) (Num 0),
        replicate (length particles * 4) (Num 0))"

text \<open>Lines 306 to 321: the loop of the fallback path.\<close>

function fallback_loop ::
  "renderer \<Rightarrow> nat \<Rightarrow> jsnum list \<Rightarrow> jsnum list \<Rightarrow> jsnum list \<Rightarrow> nat \<Rightarrow> gl_state \<Rightarrow> gl_state" where
  "fallback_loop this n positions sizes colors i g =
     (if i < n then
        fallback_loop this n positions sizes colors (i + 1)
          (run [bindBuffer InstancePositionBuffer,
                bufferData [read_at positions (i * 2), read_at positions (i * 2 + 1)] DYNAMIC_DRAW,
                bindBuffer InstanceSizeBuffer,
                bufferData [read_at sizes i] DYNAMIC_DRAW,
                bindBuffer InstanceColorBuffer,
                bufferData [read_at colors (i * 4), read_at colors (i * 4 + 1), read_at colors (i * 4 + 2),
                            read_at colors (i * 4 + 3)] DYNAMIC_DRAW,
                drawArrays TRIANGLE_FAN 0 (circleVertexCount this)] g)
      else g)"
  by pat_completeness auto
termination
  by (relation "measure (\<lambda>(this, n, positions, sizes, colors, i, g). n - i)") auto

declare fallback_loop.simps [simp del]

text \<open>
  \<open>drawParticles(particles)\<close>. The argument is \<open>None\<close> for \<open>null\<close> or
  \<open>undefined\<close>. With particles to draw, the first statement that touches the context
  raises a \<open>TypeError\<close> when \<open>this.gl\<close> or \<open>this.programInfo\<close> is missing; the
  arrays have been built by then, and no command has been issued.
\<close>

definition drawParticles :: "renderer \<Rightarrow> particle list option \<Rightarrow> gl_state \<Rightarrow> error + gl_state" where
  "drawParticles this particles g =
     (case particles of
        None \<Rightarrow> Inr g
      | Some ps \<Rightarrow>
          if length ps = 0 then Inr g
          else
            (let (positions, sizes, colors) = instance_arrays ps in
             if \<not> has_gl this then Inl TypeError
             else case programInfo this of
               None \<Rightarrow> Inl TypeError
             | Some info \<Rightarrow>
                 Inr (run
                   [useProgram (program info),
                    uniform2f (resolution info) (canvas_width this) (canvas_height this),
                    bindBuffer CircleBuffer,
                    enableVertexAttribArray (vertexPosition info),
                    vertexAttribPointer (vertexPosition info) 2,
                    bindBuffer InstancePositionBuffer,
                    bufferData positions DYNAMIC_DRAW,
                    enableVertexAttribArray (instancePosition info),
                    vertexAttribPointer (instancePosition info) 2,
                    bindBuffer InstanceSizeBuffer,
                    bufferData sizes DYNAMIC_DRAW,
                    enableVertexAttribArray (instanceSize info),
                    vertexAttribPointer (instanceSize info) 1,
                    bindBuffer InstanceColorBuffer,
                    bufferData colors DYNAMIC_DRAW,
                    enableVertexAttribArray (instanceColor info),
                    vertexAttribPointer (instanceColor info) 4,
                    (if instancedArraysExt this then
                       run [vertexAttribDivisorANGLE (instancePosition info) 1,
                            vertexAttribDivisorANGLE (instanceSize info) 1,
                            vertexAttribDivisorANGLE (instanceColor info) 1,
                            drawArraysInstancedANGLE TRIANGLE_FAN 0 (circleVertexCount this) (length ps),
                            vertexAttribDivisorANGLE (instancePosition info) 0,
                            vertexAttribDivisorANGLE (instanceSize info) 0,
                            vertexAttribDivisorANGLE (instanceColor info) 0]
                     else fallback_loop this (length ps) positions sizes colors 0),
                    disableVertexAttribArray (vertexPosition info),
                    disableVertexAttribArray (instancePosition info),
                    disableVertexAttribArray (instanceSize info),
                    disableVertexAttribArray (instanceColor info)] g)))"

subsection \<open>The circle of the template shape\<close>

text \<open>
  \<open>Math.PI\<close> is the double nearest to \<open>\<pi>\<close>, which is \<open>884279719003555 / 2^48\<close>;
  it is a little below \<open>\<pi>\<close>. \<open>Math.cos\<close> and \<open>Math.sin\<close> are taken to be exact
  on their argument, like the arithmetic; of \<open>NaN\<close> and of an infinity they are
  \<open>NaN\<close>.
\<close>

definition PI_double :: real where
  "PI_double = 884279719003555 / 281474976710656"

definition Math_PI :: jsnum where
  "Math_PI = Num PI_double"

fun Math_cos :: "jsnum \<Rightarrow> jsnum" where
  "Math_cos (Num a) = Num (cos a)"
| "Math_cos _ = NaN"

fun Math_sin :: "jsnum \<Rightarrow> jsnum" where
  "Math_sin (Num a) = Num (sin a)"
| "Math_sin _ = NaN"

text \<open>\<open>vertices.push(a, b)\<close>: an array holds at most \<open>2^32 - 1\<close> elements, and
  \<open>push\<close> raises a \<open>RangeError\<close> beyond.\<close>

definition push2 :: "jsnum list \<Rightarrow> jsnum \<Rightarrow> jsnum \<Rightarrow> error + jsnum list" where
  "push2 vertices a b =
     (if 4294967295 < length vertices + 2 then Inl RangeError else Inr (vertices @ [a, b]))"

text \<open>
  The circle of \<open>initBuffers\<close>, lines 124 to 134, with the segment count as a
  parameter (the source fixes it to 12). The loop counter is a natural number; it stays
  far below \<open>2^53\<close>, where counting in doubles is exact, because the array fills up
  first.
\<close>

function circle_loop :: "nat \<Rightarrow> nat \<Rightarrow> jsnum list \<Rightarrow> error + jsnum list" where
  "circle_loop segments i vertices =
     (if i \<le> segments then
        let theta = number (real i) / number (real segments) * Math_PI * Num 2
        in case push2 vertices (Math_cos theta) (Math_sin theta) of
             Inl e \<Rightarrow> Inl e
           | Inr vertices' \<Rightarrow> circle_loop segments (i + 1) vertices'
      else Inr vertices)"
  by pat_completeness auto
termination
  by (relation "measure (\<lambda>(segments, i, vertices). segments + 1 - i)") auto

declare circle_loop.simps [simp del]

definition circle_vertices :: "nat \<Rightarrow> error + jsnum list" where
  "circle_vertices segments =
     (case push2 [] (Num 0) (Num 0) of
        Inl e \<Rightarrow> Inl e
      | Inr vertices \<Rightarrow> circle_loop segments 0 vertices)"

text \<open>\<open>initBuffers\<close>: the circle goes into \<open>circleBuffer\<close>, and
  \<open>circleVertexCount\<close>, returned here with the context, is \<open>segments + 2\<close>.\<close>

definition initBuffers :: "gl_state \<Rightarrow> error + gl_state \<times> nat" where
  "initBuffers g =
     (let segments = 12 in
      case circle_vertices segments of
        Inl e \<Rightarrow> Inl e
      | Inr vertices \<Rightarrow>
          Inr (run [bindBuffer CircleBuffer, bufferData vertices STATIC_DRAW] g, segments + 2))"

text \<open>The angle and the vertex of the ring at index \<open>i\<close>, as the loop computes them,
  and the vertex at an index of a flat list of coordinates.\<close>

definition ring_angle :: "nat \<Rightarrow> nat \<Rightarrow> jsnum" where
  "ring_angle segments i = number (real i) / number (real segments) * Math_PI * Num 2"

definition vertex_at :: "jsnum list \<Rightarrow> nat \<Rightarrow> jsnum \<times> jsnum" where
  "vertex_at vertices k = (read_at vertices (2 * k), read_at vertices (2 * k + 1))"

definition vertices_of :: "error + jsnum list \<Rightarrow> jsnum list" where
  "vertices_of r = (case r of Inl e \<Rightarrow> [] | Inr vertices \<Rightarrow> vertices)"

text \<open>The two coordinates that the loop pushes for index \<open>i\<close>.\<close>

definition ring :: "nat \<Rightarrow> nat \<Rightarrow> jsnum list" where
  "ring segments i = [Math_cos (ring_angle segments i), Math_sin (ring_angle segments i)]"

subsection \<open>Notions used to state the claims\<close>

text \<open>The commands issued between two states of the context, and those among them that
  draw.\<close>

definition issued :: "gl_state \<Rightarrow> gl_state \<Rightarrow> gl_call list" where
  "issued g g' = drop (length (calls g)) (calls g')"

fun is_draw :: "gl_call \<Rightarrow> bool" where
  "is_draw (DrawArraysInstancedANGLE _ _ _ _) = True"
| "is_draw (DrawArrays _ _ _) = True"
| "is_draw _ = False"

text \<open>The renderer was constructed with a context and a linked shader program.\<close>

definition initialised :: "renderer \<Rightarrow> bool" where
  "initialised this \<longleftrightarrow> has_gl this \<and> programInfo this \<noteq> None"

text \<open>An operation appends a fixed list of commands to the log, whatever the state.\<close>

definition appends :: "(gl_state \<Rightarrow> gl_state) \<Rightarrow> gl_call list \<Rightarrow> bool" where
  "appends f cs \<longleftrightarrow> (\<forall>g. calls (f g) = calls g @ cs)"

text \<open>What one round of the fallback loop issues for the particle at index \<open>i\<close>.\<close>

definition fallback_block :: "renderer \<Rightarrow> jsnum list \<Rightarrow> jsnum list \<Rightarrow> jsnum list \<Rightarrow> nat \<Rightarrow> gl_call list" where
  "fallback_block this positions sizes colors i =
     [BindBuffer InstancePositionBuffer,
      BufferData [read_at positions (i * 2), read_at positions (i * 2 + 1)] DYNAMIC_DRAW,
      BindBuffer InstanceSizeBuffer,
      BufferData [read_at sizes i] DYNAMIC_DRAW,
      BindBuffer InstanceColorBuffer,
      BufferData [read_at colors (i * 4), read_at colors (i * 4 + 1), read_at colors (i * 4 + 2),
                  read_at colors (i * 4 + 3)] DYNAMIC_DRAW,
      DrawArrays TRIANGLE_FAN 0 (circleVertexCount this)]"

text \<open>The attribute values of one particle, as the arrays hold them.\<close>

definition position_of :: "particle \<Rightarrow> jsnum list" where
  "position_of p = [particle_x p, particle_y p]"

definition color_of :: "particle \<Rightarrow> jsnum list" where
  "color_of p = parseColor (particle_color p)"

text \<open>What the fallback loop issues for one particle, in terms of the particle.\<close>

definition particle_block :: "renderer \<Rightarrow> particle \<Rightarrow> gl_call list" where
  "particle_block this p =
     [BindBuffer InstancePositionBuffer, BufferData (position_of p) DYNAMIC_DRAW,
      BindBuffer InstanceSizeBuffer, BufferData [particle_size p] DYNAMIC_DRAW,
      BindBuffer InstanceColorBuffer, BufferData (color_of p) DYNAMIC_DRAW,
      DrawArrays TRIANGLE_FAN 0 (circleVertexCount this)]"

text \<open>The commands of one call on the batched path and on the fallback path, spelled
  out: the common set-up with the three whole-array uploads, then the instanced draw
  between setting and resetting the divisors, or one block per particle, then the
  clean-up.\<close>

definition setup_calls :: "renderer \<Rightarrow> programInfo \<Rightarrow> jsnum list \<Rightarrow> jsnum list \<Rightarrow> jsnum list \<Rightarrow> gl_call list" where
  "setup_calls this info positions sizes colors =
     [UseProgram (program info),
      Uniform2f (resolution info) (canvas_width this) (canvas_height this),
      BindBuffer CircleBuffer,
      EnableVertexAttribArray (vertexPosition info),
      VertexAttribPointer (vertexPosition info) 2,
      BindBuffer InstancePositionBuffer,
      BufferData positions DYNAMIC_DRAW,
      EnableVertexAttribArray (instancePosition info),
      VertexAttribPointer (instancePosition info) 2,
      BindBuffer InstanceSizeBuffer,
      BufferData sizes DYNAMIC_DRAW,
      EnableVertexAttribArray (instanceSize info),
      VertexAttribPointer (instanceSize info) 1,
      BindBuffer InstanceColorBuffer,
      BufferData colors DYNAMIC_DRAW,
      EnableVertexAttribArray (instanceColor info),
      VertexAttribPointer (instanceColor info) 4]"

definition batched_calls :: "renderer \<Rightarrow> programInfo \<Rightarrow> nat \<Rightarrow> gl_call list" where
  "batched_calls this info n =
     [VertexAttribDivisorANGLE (instancePosition info) 1,
      VertexAttribDivisorANGLE (instanceSize info) 1,
      VertexAttribDivisorANGLE (instanceColor info) 1,
      DrawArraysInstancedANGLE TRIANGLE_FAN 0 (circleVertexCount this) n,
      VertexAttribDivisorANGLE (instancePosition info) 0,
      VertexAttribDivisorANGLE (instanceSize info) 0,
      VertexAttribDivisorANGLE (instanceColor info) 0]"

definition cleanup_calls :: "programInfo \<Rightarrow> gl_call list" where
  "cleanup_calls info =
     [DisableVertexAttribArray (vertexPosition info),
      DisableVertexAttribArray (instancePosition info),
      DisableVertexAttribArray (instanceSize info),
      DisableVertexAttribArray (instanceColor info)]"

text \<open>The data arrays that a list of commands uploads to one buffer, in order: a
  \<open>bufferData\<close> goes to the buffer bound by the latest \<open>bindBuffer\<close>
  (\<open>cur\<close> is the binding before the list).\<close>

fun uploads_to :: "buffer \<Rightarrow> buffer option \<Rightarrow> gl_call list \<Rightarrow> jsnum list list" where
  "uploads_to b cur [] = []"
| "uploads_to b cur (BindBuffer b' # cs) = uploads_to b (Some b') cs"
| "uploads_to b cur (BufferData d u # cs) =
     (if cur = Some b then d # uploads_to b cur cs else uploads_to b cur cs)"
| "uploads_to b cur (_ # cs) = uploads_to b cur cs"

text \<open>The scenario of the specification: two white particles on a surface of 100 by
  100 pixels, a context that has received no command yet, and a renderer with the four
  attribute locations 0 to 3 and the 14 vertices of the circle with 12 segments.\<close>

definition fresh_context :: gl_state where
  "fresh_context =
     \<lparr>calls = [], array_buffer = None, store = (\<lambda>_. []), attrib_enabled = (\<lambda>_. False),
      attrib_buffer = (\<lambda>_. None), attrib_size = (\<lambda>_. 4), divisor = (\<lambda>_. 0),
      cap_enabled = (\<lambda>_. False), max_vertex_attribs = 16, errors = [], drawn = []\<rparr>"

definition scenario_info :: programInfo where
  "scenario_info =
     \<lparr>program = 1, vertexPosition = 0, instancePosition = 1, instanceSize = 2,
      instanceColor = 3, resolution = 0\<rparr>"

definition scenario_renderer :: "bool \<Rightarrow> renderer" where
  "scenario_renderer ext =
     \<lparr>has_gl = True, canvas_width = 100, canvas_height = 100, instancedArraysExt = ext,
      programInfo = Some scenario_info, circleVertexCount = 14\<rparr>"

definition scenario_particles :: "particle list" where
  "scenario_particles =
     [\<lparr>particle_x = Num 10, particle_y = Num 10, particle_size = Num 5, particle_color = ''#ffffff''\<rparr>,
      \<lparr>particle_x = Num 20, particle_y = Num 20, particle_size = Num 5, particle_color = ''#ffffff''\<rparr>]"

text \<open>The notation of the specification for colours. A hex digit and its value, as a
  table.\<close>

definition hex_digit :: "char \<Rightarrow> nat option" where
  "hex_digit = map_of
     [(CHR ''0'', 0), (CHR ''1'', 1), (CHR ''2'', 2), (CHR ''3'', 3), (CHR ''4'', 4),
      (CHR ''5'', 5), (CHR ''6'', 6), (CHR ''7'', 7), (CHR ''8'', 8), (CHR ''9'', 9),
      (CHR ''a'', 10), (CHR ''b'', 11), (CHR ''c'', 12), (CHR ''d'', 13), (CHR ''e'', 14),
      (CHR ''f'', 15),
      (CHR ''A'', 10), (CHR ''B'', 11), (CHR ''C'', 12), (CHR ''D'', 13), (CHR ''E'', 14),
      (CHR ''F'', 15)]"

definition black :: "jsnum list" where
  "black = [Num 0, Num 0, Num 0, Num 1]"

text \<open>The standard conversion from HSL to RGB that the specification refers to, in
  its textbook form: hue \<open>H\<close> in degrees, saturation \<open>S\<close> and lightness \<open>L\<close> as
  fractions; chroma \<open>C\<close>, the second largest component \<open>X\<close>, the offset \<open>m\<close>, and
  one arrangement of \<open>C\<close>, \<open>X\<close>, \<open>0\<close> for each sixth of the colour wheel.\<close>

definition hsl_to_rgb_standard :: "real \<Rightarrow> real \<Rightarrow> real \<Rightarrow> real \<times> real \<times> real" where
  "hsl_to_rgb_standard H S L =
     (let C = (1 - \<bar>2 * L - 1\<bar>) * S;
          H' = H / 60;
          X = C * (1 - \<bar>H' - 2 * of_int \<lfloor>H' / 2\<rfloor> - 1\<bar>);
          m = L - C / 2;
          rgb1 = (if H' < 1 then (C, X, 0)
                  else if H' < 2 then (X, C, 0)
                  else if H' < 3 then (0, C, X)
                  else if H' < 4 then (0, X, C)
                  else if H' < 5 then (X, 0, C)
                  else (C, 0, X))
      in (fst rgb1 + m, fst (snd rgb1) + m, snd (snd rgb1) + m))"

text \<open>The notation of the specification for an HSL colour \<open>hsl(H, S%, L%)\<close>: a
  numeral in decimal digits and its value; the hue as an integer part with an optional
  fraction after a dot; and the whole text, with optional white space around the two
  commas.\<close>

definition is_decimal :: "string \<Rightarrow> bool" where
  "is_decimal s \<longleftrightarrow> s \<noteq> [] \<and> list_all (\<lambda>c. c \<in> set ''0123456789'') s"

definition decimal_value :: "string \<Rightarrow> nat" where
  "decimal_value s = foldl (\<lambda>n c. 10 * n + (of_char c - 48)) 0 s"

definition hue_text :: "string \<Rightarrow> string \<Rightarrow> string" where
  "hue_text ip fp = (if fp = [] then ip else ip @ ''.'' @ fp)"

definition hue_value :: "string \<Rightarrow> string \<Rightarrow> real" where
  "hue_value ip fp = real (decimal_value ip) + real (decimal_value fp) / 10 ^ length fp"

definition hsl_text :: "string \<Rightarrow> string \<Rightarrow> string \<Rightarrow> string \<Rightarrow> string \<Rightarrow> string \<Rightarrow> string \<Rightarrow> string" where
  "hsl_text H w1 w2 S w3 w4 L =
     ''hsl('' @ H @ w1 @ '','' @ w2 @ S @ ''%'' @ w3 @ '','' @ w4 @ L @ ''%)''"

text \<open>The context of a renderer that has just been constructed: it holds the circle
  that \<open>initBuffers\<close> uploaded.\<close>

definition constructed_context :: gl_state where
  "constructed_context =
     (case initBuffers fresh_context of Inl e \<Rightarrow> fresh_context | Inr (g, n) \<Rightarrow> g)"

text \<open>The statements of the set-up and of the clean-up of \<open>drawParticles\<close>, for the
  analysis of the states it runs through.\<close>

definition setup_ops ::
  "renderer \<Rightarrow> programInfo \<Rightarrow> jsnum list \<Rightarrow> jsnum list \<Rightarrow> jsnum list \<Rightarrow> (gl_state \<Rightarrow> gl_state) list" where
  "setup_ops this info positions sizes colors =
     [useProgram (program info),
      uniform2f (resolution info) (canvas_width this) (canvas_height this),
      bindBuffer CircleBuffer,
      enableVertexAttribArray (vertexPosition info),
      vertexAttribPointer (vertexPosition info) 2,
      bindBuffer InstancePositionBuffer,
      bufferData positions DYNAMIC_DRAW,
      enableVertexAttribArray (instancePosition info),
      vertexAttribPointer (instancePosition info) 2,
      bindBuffer InstanceSizeBuffer,
      bufferData sizes DYNAMIC_DRAW,
      enableVertexAttribArray (instanceSize info),
      vertexAttribPointer (instanceSize info) 1,
      bindBuffer InstanceColorBuffer,
      bufferData colors DYNAMIC_DRAW,
      enableVertexAttribArray (instanceColor info),
      vertexAttribPointer (instanceColor info) 4]"

definition cleanup_ops :: "programInfo \<Rightarrow> (gl_state \<Rightarrow> gl_state) list" where
  "cleanup_ops info =
     [disableVertexAttribArray (vertexPosition info),
      disableVertexAttribArray (instancePosition info),
      disableVertexAttribArray (instanceSize info),
      disableVertexAttribArray (instanceColor info)]"

text \<open>The state in which the fallback loop runs: the colour attribute is an enabled
  per-vertex array of four floats per vertex, read from the colour buffer.\<close>

definition color_array_set :: "programInfo \<Rightarrow> gl_state \<Rightarrow> bool" where
  "color_array_set info g \<longleftrightarrow>
     attrib_enabled g (instanceColor info) \<and>
     attrib_buffer g (instanceColor info) = Some InstanceColorBuffer \<and>
     attrib_size g (instanceColor info) = 4 \<and>
     divisor g (instanceColor info) = 0 \<and>
     instanceColor info < max_vertex_attribs g"

section \<open>Auxiliary lemmas\<close>

lemma threshold_large: "2 ^ 64 < overflow_threshold"
proof -
  have "(2::real) ^ 970 \<le> 2 ^ 1023" by (rule power_increasing) simp_all
  moreover have "(2::real) ^ 1024 = 2 * 2 ^ 1023" by simp
  moreover have "(2::real) ^ 64 < 2 ^ 1023" by (rule power_strict_increasing) simp_all
  ultimately show ?thesis unfolding overflow_threshold_def by linarith
qed

lemma number_Num: "\<bar>r\<bar> \<le> 2 ^ 64 \<Longrightarrow> number r = Num r"
  using threshold_large by (auto simp add: number_def)

lemma small_bound: "\<bar>r\<bar> \<le> 10 ^ 9 \<Longrightarrow> \<bar>r :: real\<bar> \<le> 2 ^ 64"
  by simp

text \<open>Arithmetic on numbers of moderate size is the arithmetic of the reals.\<close>

lemma small_ops:
  assumes "\<bar>a\<bar> \<le> 10 ^ 4" "\<bar>b\<bar> \<le> 10 ^ 4"
  shows "Num a + Num b = Num (a + b)" "Num a - Num b = Num (a - b)" "Num a * Num b = Num (a * b)"
proof -
  have "\<bar>a + b\<bar> \<le> 2 ^ 64" "\<bar>a - b\<bar> \<le> 2 ^ 64" using assms by simp_all
  then show "Num a + Num b = Num (a + b)" "Num a - Num b = Num (a - b)"
    by (simp_all add: number_Num)
  have "\<bar>a * b\<bar> = \<bar>a\<bar> * \<bar>b\<bar>" by (rule abs_mult)
  also have "\<dots> \<le> 10 ^ 4 * 10 ^ 4" using assms by (intro mult_mono) simp_all
  finally have "\<bar>a * b\<bar> \<le> 2 ^ 64" by simp
  then show "Num a * Num b = Num (a * b)" by (simp add: number_Num)
qed

lemma small_divide:
  assumes "\<bar>a\<bar> \<le> 10 ^ 9" "1 \<le> b"
  shows "Num a / Num b = Num (a / b)"
proof -
  have "\<bar>a / b\<bar> = \<bar>a\<bar> / b" using assms(2) by simp
  also have "\<dots> \<le> \<bar>a\<bar>" using assms(2) by (simp add: divide_le_eq mult_le_cancel_left1)
  finally have "\<bar>a / b\<bar> \<le> 2 ^ 64" using assms(1) by simp
  then show ?thesis using assms(2) by (simp add: number_Num)
qed

text \<open>For evaluation: numbers of moderate size never reach the threshold.\<close>

lemma number_code [code]:
  "number r =
     (if \<bar>r\<bar> \<le> 18446744073709551616 then Num r
      else if overflow_threshold \<le> r then PosInf
      else if r \<le> - overflow_threshold then NegInf
      else Num r)"
proof (cases "\<bar>r\<bar> \<le> 18446744073709551616")
  case True
  then have "\<bar>r\<bar> \<le> 2 ^ 64" by simp
  then have "number r = Num r" by (rule number_Num)
  with True show ?thesis by simp
next
  case False
  then show ?thesis by (simp add: number_def)
qed

lemma hex_digit_props:
  assumes "hex_digit c = Some v"
  shows "digitValue c = v" "v < 16" "\<not> isWhiteSpace c" "c \<noteq> CHR ''+''" "c \<noteq> CHR ''-''"
    "c \<noteq> CHR ''x''" "c \<noteq> CHR ''X''" "c \<noteq> CHR ''l''"
  using assms
  by (auto simp add: hex_digit_def digitValue_def isWhiteSpace_def split: if_splits)

lemma parseInt_hex_pair:
  assumes "hex_digit a = Some va" "hex_digit b = Some vb"
  shows "parseInt [a, b] (Some 16) = Num (real (16 * va + vb))"
proof -
  note pa = hex_digit_props[OF assms(1)] and pb = hex_digit_props[OF assms(2)]
  have "\<bar>real (16 * va + vb)\<bar> \<le> 2 ^ 64" using pa(2) pb(2) by simp
  then have n: "number (real (16 * va + vb)) = Num (real (16 * va + vb))" by (rule number_Num)
  have "parseInt [a, b] (Some 16) = number (real (16 * va + vb))"
    using pa pb by (simp add: parseInt_def startsWith_def digitsValue_def Let_def mult.commute)
  with n show ?thesis by simp
qed

lemma abs_mult_le:
  fixes a b :: real
  assumes "\<bar>a\<bar> \<le> A" "\<bar>b\<bar> \<le> B"
  shows "\<bar>a * b\<bar> \<le> A * B"
proof -
  have "\<bar>a * b\<bar> = \<bar>a\<bar> * \<bar>b\<bar>" by (rule abs_mult)
  also have "\<dots> \<le> A * B" using assms by (intro mult_mono) simp_all
  finally show ?thesis .
qed

lemma hue2rgb_Num:
  assumes "\<bar>p\<bar> \<le> 4" and "\<bar>q\<bar> \<le> 4" and "\<bar>t0\<bar> \<le> 2"
  shows "hue2rgb (Num p) (Num q) (Num t0) =
     Num (let t1 = (if t0 < 0 then t0 + 1 else t0);
              t = (if 1 < t1 then t1 - 1 else t1)
          in if t < 1 / 6 then p + (q - p) * 6 * t
             else if t < 1 / 2 then q
             else if t < 2 / 3 then p + (q - p) * (2 / 3 - t) * 6
             else p)"
proof -
  define t1 where "t1 = (if t0 < 0 then t0 + 1 else t0)"
  define t where "t = (if 1 < t1 then t1 - 1 else t1)"
  have b1: "\<bar>t1\<bar> \<le> 3" using assms(3) by (auto simp add: t1_def)
  have bt: "\<bar>t\<bar> \<le> 4" using b1 by (auto simp add: t_def)
  have T1: "(if Num t0 < Num 0 then Num t0 + Num 1 else Num t0) = Num t1"
    using small_ops(1)[of t0 1] assms(3) by (auto simp add: t1_def)
  have T: "(if Num 1 < Num t1 then Num t1 - Num 1 else Num t1) = Num t"
    using small_ops(2)[of t1 1] b1 by (auto simp add: t_def)
  have bd: "\<bar>q - p\<bar> \<le> 8" using assms(1,2) by simp
  have D: "Num q - Num p = Num (q - p)"
    by (rule small_ops) (use assms in simp_all)
  have b6: "\<bar>(q - p) * 6\<bar> \<le> 48" using bd by simp
  have M6: "Num (q - p) * Num 6 = Num ((q - p) * 6)"
    by (rule small_ops) (use bd in simp_all)
  have ba: "\<bar>(q - p) * 6 * t\<bar> \<le> 48 * 4" by (rule abs_mult_le[OF b6 bt])
  have A: "Num ((q - p) * 6) * Num t = Num ((q - p) * 6 * t)"
    by (rule small_ops) (use b6 bt in simp_all)
  have B: "Num p + Num ((q - p) * 6 * t) = Num (p + (q - p) * 6 * t)"
    by (rule small_ops) (use assms(1) ba in simp_all)
  have bc: "\<bar>2 / 3 - t\<bar> \<le> 5" using bt by simp
  have C: "Num (2 / 3) - Num t = Num (2 / 3 - t)"
    by (rule small_ops) (use bt in simp_all)
  have be: "\<bar>(q - p) * (2 / 3 - t)\<bar> \<le> 8 * 5" by (rule abs_mult_le[OF bd bc])
  have E: "Num (q - p) * Num (2 / 3 - t) = Num ((q - p) * (2 / 3 - t))"
    by (rule small_ops) (use bd bc in simp_all)
  have bf: "\<bar>(q - p) * (2 / 3 - t) * 6\<bar> \<le> 240" using be by simp
  have F: "Num ((q - p) * (2 / 3 - t)) * Num 6 = Num ((q - p) * (2 / 3 - t) * 6)"
    by (rule small_ops) (use be in simp_all)
  have G: "Num p + Num ((q - p) * (2 / 3 - t) * 6) = Num (p + (q - p) * (2 / 3 - t) * 6)"
    by (rule small_ops) (use assms(1) bf in simp_all)
  have "hue2rgb (Num p) (Num q) (Num t0) =
          (if t < 1 / 6 then Num (p + (q - p) * 6 * t)
           else if t < 1 / 2 then Num q
           else if t < 2 / 3 then Num (p + (q - p) * (2 / 3 - t) * 6)
           else Num p)"
    unfolding hue2rgb_def Let_def T1 T D M6 A B C E F G by simp
  then show ?thesis unfolding Let_def t1_def[symmetric] t_def[symmetric] by simp
qed

lemma floor_half:
  fixes x :: real
  assumes "2 * of_int k \<le> x" "x < 2 * of_int k + 2"
  shows "\<lfloor>x / 2\<rfloor> = k"
  by (rule floor_unique) (use assms in simp_all)

lemma hsl_channels:
  fixes H s l :: real
  assumes H: "0 \<le> H" "H < 360" and s: "0 \<le> s" "s \<le> 1" and l: "0 \<le> l" "l \<le> 1"
  defines "q \<equiv> (if l < 1 / 2 then l * (1 + s) else l + s - l * s)"
  defines "p \<equiv> 2 * l - q"
  shows "(case hsl_to_rgb_standard H s l of (r, g, b) \<Rightarrow>
           hue2rgb (Num p) (Num q) (Num (H / 360 + 1 / 3)) = Num r \<and>
           hue2rgb (Num p) (Num q) (Num (H / 360)) = Num g \<and>
           hue2rgb (Num p) (Num q) (Num (H / 360 - 1 / 3)) = Num b)"
proof -
  define C where "C = (1 - \<bar>2 * l - 1\<bar>) * s"
  define m where "m = l - C / 2"
  define h where "h = H / 60"
  have pm: "p = m" and qm: "q = m + C"
    by (auto simp add: p_def q_def m_def C_def abs_if field_simps)
  have t: "H / 360 = h / 6" by (simp add: h_def)
  have ls: "0 \<le> l * s" "l * s \<le> 1 * 1"
  proof -
    show "0 \<le> l * s" using s l by simp
    show "l * s \<le> 1 * 1" using s l by (intro mult_mono) simp_all
  qed
  have l1s: "0 \<le> l * (1 + s)" "l * (1 + s) \<le> 1 * 2"
  proof -
    show "0 \<le> l * (1 + s)" using s l by simp
    show "l * (1 + s) \<le> 1 * 2" using s l by (intro mult_mono) simp_all
  qed
  have bq2: "\<bar>q\<bar> \<le> 2"
  proof (cases "l < 1 / 2")
    case True
    then have "q = l * (1 + s)" by (simp add: q_def)
    with l1s show ?thesis by simp
  next
    case False
    then have "q = l + s - l * s" by (simp add: q_def)
    with s l ls show ?thesis by linarith
  qed
  then have bq: "\<bar>q\<bar> \<le> 4" by simp
  have bp: "\<bar>p\<bar> \<le> 4" using bq2 l unfolding p_def by linarith
  have bh: "\<bar>H / 360 + 1 / 3\<bar> \<le> 2" "\<bar>H / 360\<bar> \<le> 2" "\<bar>H / 360 - 1 / 3\<bar> \<le> 2"
    using H by simp_all
  note hue = hue2rgb_Num[OF bp bq bh(1), unfolded t pm qm]
    hue2rgb_Num[OF bp bq bh(2), unfolded t pm qm] hue2rgb_Num[OF bp bq bh(3), unfolded t pm qm]
  have hr: "0 \<le> h" "h < 6" using H by (simp_all add: h_def)
  have std: "hsl_to_rgb_standard H s l =
     (let X = C * (1 - \<bar>h - 2 * of_int \<lfloor>h / 2\<rfloor> - 1\<bar>);
          rgb1 = (if h < 1 then (C, X, 0)
                  else if h < 2 then (X, C, 0)
                  else if h < 3 then (0, C, X)
                  else if h < 4 then (0, X, C)
                  else if h < 5 then (X, 0, C)
                  else (C, 0, X))
      in (fst rgb1 + m, fst (snd rgb1) + m, snd (snd rgb1) + m))"
    unfolding hsl_to_rgb_standard_def C_def m_def h_def Let_def by (rule refl)
  consider "h < 1" | "1 \<le> h" "h < 2" | "2 \<le> h" "h < 3" | "3 \<le> h" "h < 4"
    | "4 \<le> h" "h < 5" | "5 \<le> h"
    by linarith
  then show ?thesis
  proof cases
    case 1
    have f: "\<lfloor>h / 2\<rfloor> = 0" using floor_half[of 0 h] hr 1 by simp
    show ?thesis
      using 1 hr unfolding std t pm qm unfolding hue
      by (simp add: Let_def f algebra_simps)
  next
    case 2
    have f: "\<lfloor>h / 2\<rfloor> = 0" using floor_half[of 0 h] hr 2 by simp
    show ?thesis
      using 2 hr unfolding std t pm qm unfolding hue
      by (simp add: Let_def f algebra_simps)
  next
    case 3
    have f: "\<lfloor>h / 2\<rfloor> = 1" using floor_half[of 1 h] hr 3 by simp
    show ?thesis
      using 3 hr unfolding std t pm qm unfolding hue
      by (simp add: Let_def f algebra_simps)
  next
    case 4
    have f: "\<lfloor>h / 2\<rfloor> = 1" using floor_half[of 1 h] hr 4 by simp
    show ?thesis
      using 4 hr unfolding std t pm qm unfolding hue
      by (simp add: Let_def f algebra_simps)
  next
    case 5
    have f: "\<lfloor>h / 2\<rfloor> = 2" using floor_half[of 2 h] hr 5 by simp
    show ?thesis
      using 5 hr unfolding std t pm qm unfolding hue
      by (simp add: Let_def f algebra_simps)
  next
    case 6
    have f: "\<lfloor>h / 2\<rfloor> = 2" using floor_half[of 2 h] hr 6 by simp
    show ?thesis
      using 6 hr unfolding std t pm qm unfolding hue
      by (simp add: Let_def f algebra_simps)
  qed
qed

lemma takeWhile_run:
  "list_all P xs \<Longrightarrow> ys = [] \<or> \<not> P (hd ys) \<Longrightarrow> takeWhile P (xs @ ys) = xs"
  by (induction xs) (auto simp: takeWhile_eq_Nil_iff)

lemma dropWhile_run:
  "list_all P xs \<Longrightarrow> ys = [] \<or> \<not> P (hd ys) \<Longrightarrow> dropWhile P (xs @ ys) = ys"
  by (induction xs) (auto simp: dropWhile_eq_self_iff)

lemma decimal_char:
  assumes "c \<in> set ''0123456789''"
  shows "isDigit c" "\<not> isWhiteSpace c" "digitValue c = of_char c - 48" "digitValue c < 10"
    "c \<noteq> CHR ''+''" "c \<noteq> CHR ''-''" "c \<noteq> CHR ''x''" "c \<noteq> CHR ''X''"
  using assms by (auto simp add: isDigit_def isWhiteSpace_def digitValue_def)

lemma white_char:
  assumes "isWhiteSpace c"
  shows "\<not> isDigit c" "c \<noteq> CHR ''.''" "c \<noteq> CHR '',''"
  using assms by (auto simp add: isDigit_def isWhiteSpace_def)

lemma other_chars:
  "\<not> isDigit CHR '',''" "\<not> isDigit CHR ''%''" "\<not> isDigit CHR ''.''"
  "\<not> isWhiteSpace CHR '',''"
  by (simp_all add: isDigit_def isWhiteSpace_def)

lemma is_decimal_props:
  assumes "is_decimal s"
  shows "s \<noteq> []" "list_all isDigit s" "isDigit (hd s)" "\<not> isWhiteSpace (hd s)"
    "hd s \<noteq> CHR ''+''" "hd s \<noteq> CHR ''-''" "list_all (\<lambda>c. digitValue c < 10) s"
    "list_all (\<lambda>c. isDigit c \<or> c = CHR ''.'') s"
proof -
  from assms have ne: "s \<noteq> []" and all: "\<forall>c \<in> set s. c \<in> set ''0123456789''"
    by (simp_all add: is_decimal_def list_all_iff)
  then have hd: "hd s \<in> set ''0123456789''" by (cases s) simp_all
  show "s \<noteq> []" by (rule ne)
  show "list_all isDigit s" using all decimal_char(1) by (simp add: list_all_iff)
  show "isDigit (hd s)" using hd by (rule decimal_char)
  show "\<not> isWhiteSpace (hd s)" using hd by (rule decimal_char)
  show "hd s \<noteq> CHR ''+''" using hd by (rule decimal_char)
  show "hd s \<noteq> CHR ''-''" using hd by (rule decimal_char)
  show "list_all (\<lambda>c. digitValue c < 10) s" using all decimal_char(4) by (simp add: list_all_iff)
  show "list_all (\<lambda>c. isDigit c \<or> c = CHR ''.'') s" using all decimal_char(1) by (simp add: list_all_iff)
qed

lemma digitsValue_decimal:
  assumes "list_all (\<lambda>c. c \<in> set ''0123456789'') s"
  shows "digitsValue 10 s = decimal_value s"
proof -
  have "foldl (\<lambda>acc c. acc * 10 + digitValue c) a s = foldl (\<lambda>n c. 10 * n + (of_char c - 48)) a s" for a
    using assms
  proof (induction s arbitrary: a)
    case Nil
    show ?case by simp
  next
    case (Cons c cs)
    then have "digitValue c = of_char c - 48" using decimal_char(3)[of c] by simp
    with Cons show ?case by (simp add: mult.commute)
  qed
  then show ?thesis by (simp add: digitsValue_def decimal_value_def)
qed

lemma not_prefix_0x:
  assumes "list_all isDigit s"
  shows "\<not> startsWith s ''0x''" "\<not> startsWith s ''0X''"
proof -
  have "\<not> isDigit CHR ''x''" "\<not> isDigit CHR ''X''" by (simp_all add: isDigit_def)
  with assms show "\<not> startsWith s ''0x''" "\<not> startsWith s ''0X''"
    by (cases s; cases "tl s"; auto simp add: startsWith_def)+
qed

lemma parseInt_decimal:
  assumes "is_decimal s"
  shows "parseInt s None = number (real (decimal_value s))"
proof -
  note p = is_decimal_props[OF assms]
  have d: "dropWhile isWhiteSpace s = s"
    using p(1,4) by (cases s) simp_all
  have z: "takeWhile (\<lambda>c. digitValue c < 10) s = s"
    using takeWhile_run[OF p(7), of "[]"] by simp
  have v: "digitsValue 10 s = decimal_value s"
    using assms by (intro digitsValue_decimal) (simp add: is_decimal_def)
  show ?thesis
    using p(1,5,6) not_prefix_0x[OF p(2)]
    by (simp add: parseInt_def d z v Let_def)
qed

lemma parseFloat_hue:
  assumes "is_decimal ip" and "fp = [] \<or> is_decimal fp"
  shows "parseFloat (hue_text ip fp) = number (hue_value ip fp)"
proof -
  note p = is_decimal_props[OF assms(1)]
  have vi: "digitsValue 10 ip = decimal_value ip"
    using assms(1) by (intro digitsValue_decimal) (simp add: is_decimal_def)
  show ?thesis
  proof (cases "fp = []")
    case True
    have d: "dropWhile isWhiteSpace ip = ip" using p(1,4) by (cases ip) simp_all
    have t: "takeWhile isDigit ip = ip" using takeWhile_run[OF p(2), of "[]"] by simp
    have r: "dropWhile isDigit ip = []" using dropWhile_run[OF p(2), of "[]"] by simp
    have e: "digitsValue 10 [] = 0" "decimal_value [] = 0"
      by (simp_all add: digitsValue_def decimal_value_def)
    show ?thesis
      using True p(1) by (simp add: parseFloat_def hue_text_def hue_value_def d t r vi e Let_def)
  next
    case False
    with assms(2) have fd: "is_decimal fp" by simp
    note q = is_decimal_props[OF fd]
    have vf: "digitsValue 10 fp = decimal_value fp"
      using fd by (intro digitsValue_decimal) (simp add: is_decimal_def)
    have d: "dropWhile isWhiteSpace (ip @ CHR ''.'' # fp) = ip @ CHR ''.'' # fp"
      using p(1,4) by (cases ip) simp_all
    have t: "takeWhile isDigit (ip @ CHR ''.'' # fp) = ip"
      using takeWhile_run[OF p(2), of "CHR ''.'' # fp"] other_chars by simp
    have r: "dropWhile isDigit (ip @ CHR ''.'' # fp) = CHR ''.'' # fp"
      using dropWhile_run[OF p(2), of "CHR ''.'' # fp"] other_chars by simp
    have f: "takeWhile isDigit fp = fp" using takeWhile_run[OF q(2), of "[]"] by simp
    show ?thesis
      using False p(1) by (simp add: parseFloat_def hue_text_def hue_value_def d t r f vi vf Let_def)
  qed
qed

lemma skip_comma_ok:
  assumes "list_all isWhiteSpace w1" "list_all isWhiteSpace w2" "r = [] \<or> \<not> isWhiteSpace (hd r)"
  shows "skip_comma (w1 @ CHR '','' # w2 @ r) = Some r"
proof -
  have "dropWhile isWhiteSpace (w1 @ CHR '','' # w2 @ r) = CHR '','' # w2 @ r"
    using dropWhile_run[OF assms(1), of "CHR '','' # w2 @ r"] other_chars by simp
  moreover have "dropWhile isWhiteSpace (w2 @ r) = r"
    using dropWhile_run[OF assms(2,3)] .
  ultimately show ?thesis by (simp add: skip_comma_def)
qed

lemma hue_text_props:
  assumes "is_decimal ip" and "fp = [] \<or> is_decimal fp"
  shows "hue_text ip fp \<noteq> []" "list_all (\<lambda>c. isDigit c \<or> c = CHR ''.'') (hue_text ip fp)"
  using is_decimal_props(1,8)[OF assms(1)] assms(2) is_decimal_props(8)[of fp]
  by (auto simp add: hue_text_def)

lemma hsl_match_here_text:
  assumes H: "H \<noteq> []" "list_all (\<lambda>c. isDigit c \<or> c = CHR ''.'') H"
    and S: "is_decimal sd" and L: "is_decimal ld"
    and w: "list_all isWhiteSpace w1" "list_all isWhiteSpace w2" "list_all isWhiteSpace w3"
      "list_all isWhiteSpace w4"
  shows "hsl_match_here (hsl_text H w1 w2 sd w3 w4 ld) = Some (H, sd, ld)"
proof -
  note ps = is_decimal_props[OF S] and pl = is_decimal_props[OF L]
  let ?R4 = "ld @ ''%)''"
  let ?R3 = "w3 @ CHR '','' # w4 @ ?R4"
  let ?R2 = "sd @ CHR ''%'' # ?R3"
  let ?R1 = "w1 @ CHR '','' # w2 @ ?R2"
  have shape: "hsl_text H w1 w2 sd w3 w4 ld = ''hsl('' @ H @ ?R1"
    by (simp add: hsl_text_def)
  have sw: "startsWith (''hsl('' @ H @ ?R1) ''hsl(''" by (simp add: startsWith_def)
  have dr: "drop 4 (''hsl('' @ H @ ?R1) = H @ ?R1" by simp
  have hd1: "\<not> (isDigit (hd ?R1) \<or> hd ?R1 = CHR ''.'')"
  proof (cases w1)
    case Nil
    then show ?thesis using other_chars by simp
  next
    case (Cons c cs)
    with w(1) have "isWhiteSpace c" by simp
    with Cons show ?thesis using white_char by simp
  qed
  have m1: "takeWhile (\<lambda>c. isDigit c \<or> c = CHR ''.'') (H @ ?R1) = H"
    by (rule takeWhile_run[OF H(2)]) (use hd1 in blast)
  have s2: "dropWhile (\<lambda>c. isDigit c \<or> c = CHR ''.'') (H @ ?R1) = ?R1"
    by (rule dropWhile_run[OF H(2)]) (use hd1 in blast)
  have hdS: "\<not> isWhiteSpace (hd ?R2)" using ps(1,4) by (cases sd) simp_all
  have hdL: "\<not> isWhiteSpace (hd ?R4)" using pl(1,4) by (cases ld) simp_all
  have c1: "skip_comma ?R1 = Some ?R2"
    by (rule skip_comma_ok[OF w(1,2)]) (use hdS in blast)
  have m2: "takeWhile isDigit ?R2 = sd"
    using takeWhile_run[OF ps(2), of "CHR ''%'' # ?R3"] other_chars by simp
  have s4: "dropWhile isDigit ?R2 = CHR ''%'' # ?R3"
    using dropWhile_run[OF ps(2), of "CHR ''%'' # ?R3"] other_chars by simp
  have p1: "startsWith (CHR ''%'' # ?R3) ''%''" "drop 1 (CHR ''%'' # ?R3) = ?R3"
    by (simp_all add: startsWith_def)
  have c2: "skip_comma ?R3 = Some ?R4"
    by (rule skip_comma_ok[OF w(3,4)]) (use hdL in blast)
  have m3: "takeWhile isDigit ?R4 = ld"
    using takeWhile_run[OF pl(2), of "''%)''"] other_chars by simp
  have s6: "dropWhile isDigit ?R4 = ''%)''"
    using dropWhile_run[OF pl(2), of "''%)''"] other_chars by simp
  have p2: "startsWith ''%)'' ''%)''" by (simp add: startsWith_def)
  show ?thesis
    unfolding shape hsl_match_here_def
    by (simp only: sw dr m1 s2 c1 m2 s4 p1 c2 m3 s6 p2 Let_def H(1) ps(1) pl(1)
        not_True_eq_False not_False_eq_True if_False if_True simp_thms option.case)
qed

lemma hsl_match_first:
  assumes "hsl_match_here s = Some m"
  shows "hsl_match s = Some m"
  using assms by (cases s) simp_all

lemma startsWith_hsl_text: "startsWith (hsl_text H w1 w2 S w3 w4 L) ''hsl''"
  by (simp add: hsl_text_def startsWith_def)

lemma hsl_standard_achromatic: "hsl_to_rgb_standard H 0 L = (L, L, L)"
  by (simp add: hsl_to_rgb_standard_def Let_def)

lemma parseColor_matched:
  assumes "startsWith color ''hsl''" and "hsl_match color = Some (m1, m2, m3)"
    and "parseFloat m1 = Num hv" and "parseInt m2 None = Num sv" and "parseInt m3 None = Num lv"
    and hv: "0 \<le> hv" "hv < 360" and sv: "0 \<le> sv" "sv \<le> 100" and lv: "0 \<le> lv" "lv \<le> 100"
  shows "parseColor color =
           (if sv = 0 then [Num (lv / 100), Num (lv / 100), Num (lv / 100), Num 1]
            else [hue2rgb (Num (2 * (lv / 100) - (if lv / 100 < 1 / 2 then lv / 100 * (1 + sv / 100)
                                                else lv / 100 + sv / 100 - lv / 100 * (sv / 100))))
                    (Num (if lv / 100 < 1 / 2 then lv / 100 * (1 + sv / 100)
                          else lv / 100 + sv / 100 - lv / 100 * (sv / 100)))
                    (Num (hv / 360 + 1 / 3)),
                  hue2rgb (Num (2 * (lv / 100) - (if lv / 100 < 1 / 2 then lv / 100 * (1 + sv / 100)
                                                else lv / 100 + sv / 100 - lv / 100 * (sv / 100))))
                    (Num (if lv / 100 < 1 / 2 then lv / 100 * (1 + sv / 100)
                          else lv / 100 + sv / 100 - lv / 100 * (sv / 100)))
                    (Num (hv / 360)),
                  hue2rgb (Num (2 * (lv / 100) - (if lv / 100 < 1 / 2 then lv / 100 * (1 + sv / 100)
                                                else lv / 100 + sv / 100 - lv / 100 * (sv / 100))))
                    (Num (if lv / 100 < 1 / 2 then lv / 100 * (1 + sv / 100)
                          else lv / 100 + sv / 100 - lv / 100 * (sv / 100)))
                    (Num (hv / 360 - 1 / 3)),
                  Num 1])"
proof -
  define h where "h = hv / 360"
  define s where "s = sv / 100"
  define l where "l = lv / 100"
  define q where "q = (if l < 1 / 2 then l * (1 + s) else l + s - l * s)"
  have bh: "0 \<le> h" "h \<le> 1" using hv by (simp_all add: h_def)
  have bs: "0 \<le> s" "s \<le> 1" using sv by (simp_all add: s_def)
  have bl: "0 \<le> l" "l \<le> 1" using lv by (simp_all add: l_def)
  have ls: "0 \<le> l * s" "l * s \<le> 1 * 1"
  proof -
    show "0 \<le> l * s" using bs bl by simp
    show "l * s \<le> 1 * 1" using bs bl by (intro mult_mono) simp_all
  qed
  have l1s: "0 \<le> l * (1 + s)" "l * (1 + s) \<le> 1 * 2"
  proof -
    show "0 \<le> l * (1 + s)" using bs bl by simp
    show "l * (1 + s) \<le> 1 * 2" using bs bl by (intro mult_mono) simp_all
  qed
  have bq: "\<bar>q\<bar> \<le> 4"
  proof (cases "l < 1 / 2")
    case True
    then have "q = l * (1 + s)" by (simp add: q_def)
    with l1s show ?thesis by simp
  next
    case False
    then have "q = l + s - l * s" by (simp add: q_def)
    with bs bl ls show ?thesis by linarith
  qed
  have H: "Num hv / Num 360 = Num h"
    unfolding h_def by (rule small_divide) (use hv in simp_all)
  have S: "Num sv / Num 100 = Num s"
    unfolding s_def by (rule small_divide) (use sv in simp_all)
  have L: "Num lv / Num 100 = Num l"
    unfolding l_def by (rule small_divide) (use lv in simp_all)
  have s0: "(Num s = Num 0) = (sv = 0)" by (simp add: s_def)
  have O: "Num 1 + Num s = Num (1 + s)" by (rule small_ops) (use bs in simp_all)
  have M: "Num l * Num (1 + s) = Num (l * (1 + s))" by (rule small_ops) (use bs bl in simp_all)
  have A: "Num l + Num s = Num (l + s)" by (rule small_ops) (use bs bl in simp_all)
  have P: "Num l * Num s = Num (l * s)" by (rule small_ops) (use bs bl in simp_all)
  have D: "Num (l + s) - Num (l * s) = Num (l + s - l * s)"
    by (rule small_ops) (use bs bl ls in simp_all)
  have Q: "(if Num l < Num (1 / 2) then Num l * (Num 1 + Num s) else Num l + Num s - Num l * Num s)
             = Num q"
    unfolding O M A P D q_def by simp
  have T: "Num 2 * Num l = Num (2 * l)" by (rule small_ops) (use bl in simp_all)
  have Pp: "Num (2 * l) - Num q = Num (2 * l - q)" by (rule small_ops) (use bl bq in simp_all)
  have U: "Num h + Num (1 / 3) = Num (h + 1 / 3)" by (rule small_ops) (use bh in simp_all)
  have V: "Num h - Num (1 / 3) = Num (h - 1 / 3)" by (rule small_ops) (use bh in simp_all)
  have m: "(if startsWith color ''hsl'' then hsl_match color else None) = Some (m1, m2, m3)"
    using assms(1,2) by simp
  have "parseColor color =
          (if sv = 0 then [Num l, Num l, Num l, Num 1]
           else [hue2rgb (Num (2 * l - q)) (Num q) (Num (h + 1 / 3)),
                 hue2rgb (Num (2 * l - q)) (Num q) (Num h),
                 hue2rgb (Num (2 * l - q)) (Num q) (Num (h - 1 / 3)), Num 1])"
    unfolding parseColor_def m Let_def option.sel fst_conv snd_conv assms(3,4,5) H S L s0 Q T Pp U V
    by simp
  then show ?thesis unfolding q_def l_def s_def h_def by simp
qed

lemma appends_ops:
  "appends (useProgram prog) [UseProgram prog]"
  "appends (uniform2f loc w h) [Uniform2f loc w h]"
  "appends (bindBuffer b) [BindBuffer b]"
  "appends (bufferData d u) [BufferData d u]"
  "appends (enableVertexAttribArray i) [EnableVertexAttribArray i]"
  "appends (disableVertexAttribArray i) [DisableVertexAttribArray i]"
  "appends (vertexAttribPointer i n) [VertexAttribPointer i n]"
  "appends (vertexAttribDivisorANGLE i dv) [VertexAttribDivisorANGLE i dv]"
  "appends (drawArraysInstancedANGLE m first n k) [DrawArraysInstancedANGLE m first n k]"
  "appends (drawArrays m first n) [DrawArrays m first n]"
  by (simp_all add: appends_def emit_def useProgram_def uniform2f_def bindBuffer_def bufferData_def
      enableVertexAttribArray_def disableVertexAttribArray_def vertexAttribPointer_def
      vertexAttribDivisorANGLE_def drawArraysInstancedANGLE_def drawArrays_def draw_def
      split: option.split)

lemma appends_run_Nil: "appends (run []) []"
  by (simp add: appends_def)

lemma appends_run_Cons: "appends f cs \<Longrightarrow> appends (run fs) ds \<Longrightarrow> appends (run (f # fs)) (cs @ ds)"
  by (simp add: appends_def)

lemma appends_fallback_loop:
  "appends (fallback_loop this n P S C i) (concat (map (fallback_block this P S C) [i..<n]))"
proof (induction "n - i" arbitrary: i)
  case 0
  then show ?case by (simp add: appends_def fallback_loop.simps)
next
  case (Suc k)
  then have lt: "i < n" and k: "k = n - (i + 1)" by simp_all
  have body: "appends (run [bindBuffer InstancePositionBuffer,
                bufferData [read_at P (i * 2), read_at P (i * 2 + 1)] DYNAMIC_DRAW,
                bindBuffer InstanceSizeBuffer,
                bufferData [read_at S i] DYNAMIC_DRAW,
                bindBuffer InstanceColorBuffer,
                bufferData [read_at C (i * 4), read_at C (i * 4 + 1), read_at C (i * 4 + 2),
                            read_at C (i * 4 + 3)] DYNAMIC_DRAW,
                drawArrays TRIANGLE_FAN 0 (circleVertexCount this)]) (fallback_block this P S C i)"
    unfolding fallback_block_def
    using appends_ops by (simp add: appends_def)
  have rest: "appends (fallback_loop this n P S C (i + 1)) (concat (map (fallback_block this P S C) [i + 1..<n]))"
    using Suc.hyps(1)[OF k] .
  have split: "[i..<n] = i # [i + 1..<n]"
    using lt by (simp add: upt_conv_Cons)
  show ?case
    using body rest lt unfolding appends_def split
    by (subst fallback_loop.simps) simp
qed

lemma parseColor_length: "length (parseColor s) = 4"
  by (simp add: parseColor_def Let_def)

lemma read_at_all4: "length c = 4 \<Longrightarrow> [read_at c 0, read_at c 1, read_at c 2, read_at c 3] = c"
proof -
  assume "length c = 4"
  then obtain a b e d where "c = [a, b, e, d]"
    by (auto simp: length_Suc_conv numeral_eq_Suc)
  then show ?thesis by (simp add: read_at_def)
qed

lemma take_update2:
  "i + 1 < length xs \<Longrightarrow> take (i + 2) (xs[i := a, i + 1 := b]) = take i xs @ [a, b]"
  by (rule nth_equalityI) (auto simp: nth_append nth_list_update nth_Cons split: nat.split)

lemma take_update1:
  "i < length xs \<Longrightarrow> take (i + 1) (xs[i := a]) = take i xs @ [a]"
  by (rule nth_equalityI) (auto simp: nth_append nth_list_update nth_Cons split: nat.split)

lemma take_update4:
  "i + 3 < length xs \<Longrightarrow>
   take (i + 4) (xs[i := a, i + 1 := b, i + 2 := c, i + 3 := d]) = take i xs @ [a, b, c, d]"
  by (rule nth_equalityI) (auto simp: nth_append nth_list_update nth_Cons split: nat.split)

lemma fill_arrays_inv:
  assumes "length P = length ps * 2" "length S = length ps" "length C = length ps * 4" "i \<le> length ps"
  shows "fill_arrays ps i (P, S, C) =
           (take (i * 2) P @ concat (map position_of (drop i ps)),
            take i S @ map particle_size (drop i ps),
            take (i * 4) C @ concat (map color_of (drop i ps)))"
  using assms
proof (induction "length ps - i" arbitrary: i P S C)
  case 0
  then show ?case by (simp add: fill_arrays.simps)
next
  case (Suc k)
  then have lt: "i < length ps" and k: "k = length ps - (i + 1)" by simp_all
  let ?p = "ps ! i"
  let ?c = "parseColor (particle_color ?p)"
  let ?P = "P[i * 2 := particle_x ?p, i * 2 + 1 := particle_y ?p]"
  let ?S = "S[i := particle_size ?p]"
  let ?C = "C[i * 4 := read_at ?c 0, i * 4 + 1 := read_at ?c 1, i * 4 + 2 := read_at ?c 2,
              i * 4 + 3 := read_at ?c 3]"
  have step: "fill_arrays ps i (P, S, C) = fill_arrays ps (i + 1) (?P, ?S, ?C)"
    using lt by (subst fill_arrays.simps) (simp add: Let_def)
  have ih: "fill_arrays ps (i + 1) (?P, ?S, ?C) =
           (take ((i + 1) * 2) ?P @ concat (map position_of (drop (i + 1) ps)),
            take (i + 1) ?S @ map particle_size (drop (i + 1) ps),
            take ((i + 1) * 4) ?C @ concat (map color_of (drop (i + 1) ps)))"
    using Suc.hyps(1)[OF k] Suc.prems lt by simp
  have tP: "take ((i + 1) * 2) ?P = take (i * 2) P @ position_of ?p"
  proof -
    have "i * 2 + 1 < length P" using lt Suc.prems(1) by simp
    then have "take (i * 2 + 2) ?P = take (i * 2) P @ [particle_x ?p, particle_y ?p]"
      by (rule take_update2)
    moreover have "(i + 1) * 2 = i * 2 + 2" by simp
    ultimately show ?thesis by (simp only: position_of_def)
  qed
  have tS: "take (i + 1) ?S = take i S @ [particle_size ?p]"
  proof -
    have "i < length S" using lt Suc.prems(2) by simp
    then show ?thesis by (rule take_update1)
  qed
  have tC: "take ((i + 1) * 4) ?C = take (i * 4) C @ color_of ?p"
  proof -
    have "i * 4 + 3 < length C" using lt Suc.prems(3) by simp
    then have "take (i * 4 + 4) ?C =
        take (i * 4) C @ [read_at ?c 0, read_at ?c 1, read_at ?c 2, read_at ?c 3]"
      by (rule take_update4)
    moreover have "[read_at ?c 0, read_at ?c 1, read_at ?c 2, read_at ?c 3] = ?c"
      by (rule read_at_all4[OF parseColor_length])
    moreover have "(i + 1) * 4 = i * 4 + 4" by simp
    ultimately show ?thesis by (simp only: color_of_def)
  qed
  have dr: "drop i ps = ?p # drop (i + 1) ps"
    using lt by (simp add: Cons_nth_drop_Suc)
  show ?case
    unfolding step ih tP tS tC dr by simp
qed

lemma instance_arrays_eq:
  "instance_arrays ps = (concat (map position_of ps), map particle_size ps, concat (map color_of ps))"
  unfolding instance_arrays_def by (subst fill_arrays_inv) simp_all

lemma concat_uniform_length:
  "(\<forall>x \<in> set xs. length (f x) = k) \<Longrightarrow> length (concat (map f xs)) = length xs * k"
  by (induction xs) simp_all

lemma concat_uniform_nth:
  "(\<forall>x \<in> set xs. length (f x) = k) \<Longrightarrow> i < length xs \<Longrightarrow> j < k \<Longrightarrow>
   concat (map f xs) ! (i * k + j) = f (xs ! i) ! j"
proof (induction xs arbitrary: i)
  case Nil
  then show ?case by simp
next
  case (Cons a xs)
  show ?case
  proof (cases i)
    case 0
    then show ?thesis using Cons.prems by (simp add: nth_append)
  next
    case (Suc m)
    then have "concat (map f (a # xs)) ! (i * k + j) = concat (map f xs) ! (m * k + j)"
      using Cons.prems by (simp add: nth_append)
    also have "\<dots> = f (xs ! m) ! j"
      using Cons.IH[of m] Cons.prems Suc by simp
    finally show ?thesis using Suc by simp
  qed
qed

lemma read_at_concat:
  assumes "\<forall>x \<in> set xs. length (f x) = k" "i < length xs" "j < k"
  shows "read_at (concat (map f xs)) (i * k + j) = f (xs ! i) ! j"
proof -
  have "i * k + j < length xs * k"
  proof -
    have "i * k + j < (i + 1) * k" using assms(3) by simp
    also have "\<dots> \<le> length xs * k" using assms(2) by (intro mult_le_mono1) simp
    finally show ?thesis .
  qed
  then show ?thesis
    using concat_uniform_length[OF assms(1)] concat_uniform_nth[OF assms] by (simp add: read_at_def)
qed

lemma color_of_length: "length (color_of p) = 4"
  by (simp add: color_of_def parseColor_length)

lemma position_of_length: "length (position_of p) = 2"
  by (simp add: position_of_def)

lemma fallback_block_particle:
  assumes "i < length ps"
  shows "fallback_block this (concat (map position_of ps)) (map particle_size ps)
           (concat (map color_of ps)) i = particle_block this (ps ! i)"
proof -
  have p: "\<forall>x \<in> set ps. length (position_of x) = 2" by (simp add: position_of_length)
  have c: "\<forall>x \<in> set ps. length (color_of x) = 4" by (simp add: color_of_length)
  have p0: "read_at (concat (map position_of ps)) (i * 2) = position_of (ps ! i) ! 0"
    using read_at_concat[OF p assms, of 0] by simp
  have p1: "read_at (concat (map position_of ps)) (i * 2 + 1) = position_of (ps ! i) ! 1"
    using read_at_concat[OF p assms, of 1] by simp
  have s0: "read_at (map particle_size ps) i = particle_size (ps ! i)"
    using assms by (simp add: read_at_def)
  have c0: "read_at (concat (map color_of ps)) (i * 4) = color_of (ps ! i) ! 0"
    using read_at_concat[OF c assms, of 0] by simp
  have c1: "read_at (concat (map color_of ps)) (i * 4 + 1) = color_of (ps ! i) ! 1"
    using read_at_concat[OF c assms, of 1] by simp
  have c2: "read_at (concat (map color_of ps)) (i * 4 + 2) = color_of (ps ! i) ! 2"
    using read_at_concat[OF c assms, of 2] by simp
  have c3: "read_at (concat (map color_of ps)) (i * 4 + 3) = color_of (ps ! i) ! 3"
    using read_at_concat[OF c assms, of 3] by simp
  have pe: "[position_of (ps ! i) ! 0, position_of (ps ! i) ! 1] = position_of (ps ! i)"
    by (simp add: position_of_def)
  have ce: "[color_of (ps ! i) ! 0, color_of (ps ! i) ! 1, color_of (ps ! i) ! 2, color_of (ps ! i) ! 3]
            = color_of (ps ! i)"
    using read_at_all4[OF color_of_length, of "ps ! i"] color_of_length[of "ps ! i"]
    by (simp add: read_at_def)
  show ?thesis
    unfolding fallback_block_def particle_block_def p0 p1 s0 c0 c1 c2 c3 pe ce by (rule refl)
qed

lemma fallback_blocks_particles:
  "concat (map (fallback_block this (concat (map position_of ps)) (map particle_size ps)
                 (concat (map color_of ps))) [0..<length ps])
   = concat (map (particle_block this) ps)"
proof -
  have "map (fallback_block this (concat (map position_of ps)) (map particle_size ps)
                 (concat (map color_of ps))) [0..<length ps]
        = map (\<lambda>i. particle_block this (ps ! i)) [0..<length ps]"
    by (rule map_cong) (simp_all add: fallback_block_particle)
  also have "\<dots> = map (particle_block this) ps"
    by (rule nth_equalityI) simp_all
  finally show ?thesis by simp
qed

lemma appends_issued: "appends f cs \<Longrightarrow> issued g (f g) = cs"
  by (simp add: appends_def issued_def)

lemma appends_run:
  "list_all2 appends fs css \<Longrightarrow> appends (run fs) (concat css)"
proof (induction fs css rule: list_all2_induct)
  case Nil
  show ?case by (simp add: appends_def)
next
  case (Cons f fs cs css)
  then show ?case by (simp add: appends_def)
qed

lemma appends_frame:
  "appends
     (run [useProgram (program info),
           uniform2f (resolution info) (canvas_width this) (canvas_height this),
           bindBuffer CircleBuffer,
           enableVertexAttribArray (vertexPosition info),
           vertexAttribPointer (vertexPosition info) 2,
           bindBuffer InstancePositionBuffer,
           bufferData P DYNAMIC_DRAW,
           enableVertexAttribArray (instancePosition info),
           vertexAttribPointer (instancePosition info) 2,
           bindBuffer InstanceSizeBuffer,
           bufferData S DYNAMIC_DRAW,
           enableVertexAttribArray (instanceSize info),
           vertexAttribPointer (instanceSize info) 1,
           bindBuffer InstanceColorBuffer,
           bufferData C DYNAMIC_DRAW,
           enableVertexAttribArray (instanceColor info),
           vertexAttribPointer (instanceColor info) 4,
           body,
           disableVertexAttribArray (vertexPosition info),
           disableVertexAttribArray (instancePosition info),
           disableVertexAttribArray (instanceSize info),
           disableVertexAttribArray (instanceColor info)])
     (setup_calls this info P S C @ bs @ cleanup_calls info)"
  (is "appends (run ?fs) _")
  if body: "appends body bs"
proof -
  let ?css = "map (\<lambda>c. [c]) (setup_calls this info P S C) @ [bs]
                @ map (\<lambda>c. [c]) (cleanup_calls info)"
  have "list_all2 appends ?fs ?css"
    unfolding setup_calls_def cleanup_calls_def by (simp add: appends_ops body)
  then have "appends (run ?fs) (concat ?css)" by (rule appends_run)
  moreover have "concat ?css = setup_calls this info P S C @ bs @ cleanup_calls info"
    unfolding setup_calls_def cleanup_calls_def by simp
  ultimately show ?thesis by simp
qed

lemma appends_batched:
  "appends
     (run [vertexAttribDivisorANGLE (instancePosition info) 1,
           vertexAttribDivisorANGLE (instanceSize info) 1,
           vertexAttribDivisorANGLE (instanceColor info) 1,
           drawArraysInstancedANGLE TRIANGLE_FAN 0 (circleVertexCount this) n,
           vertexAttribDivisorANGLE (instancePosition info) 0,
           vertexAttribDivisorANGLE (instanceSize info) 0,
           vertexAttribDivisorANGLE (instanceColor info) 0])
     (batched_calls this info n)"
  (is "appends (run ?fs) _")
proof -
  let ?css = "map (\<lambda>c. [c]) (batched_calls this info n)"
  have "list_all2 appends ?fs ?css"
    unfolding batched_calls_def by (simp add: appends_ops)
  then have "appends (run ?fs) (concat ?css)" by (rule appends_run)
  moreover have "concat ?css = batched_calls this info n"
    unfolding batched_calls_def by simp
  ultimately show ?thesis by simp
qed

text \<open>The whole trace of a call that draws.\<close>

lemma drawParticles_issued:
  assumes "has_gl this" "programInfo this = Some info" "ps \<noteq> []"
  shows "\<exists>g'. drawParticles this (Some ps) g = Inr g' \<and>
           issued g g' =
             setup_calls this info (concat (map position_of ps)) (map particle_size ps)
               (concat (map color_of ps))
             @ (if instancedArraysExt this then batched_calls this info (length ps)
                else concat (map (particle_block this) ps))
             @ cleanup_calls info"
proof -
  let ?P = "concat (map position_of ps)"
  let ?S = "map particle_size ps"
  let ?C = "concat (map color_of ps)"
  let ?body = "if instancedArraysExt this then
                 run [vertexAttribDivisorANGLE (instancePosition info) 1,
                      vertexAttribDivisorANGLE (instanceSize info) 1,
                      vertexAttribDivisorANGLE (instanceColor info) 1,
                      drawArraysInstancedANGLE TRIANGLE_FAN 0 (circleVertexCount this) (length ps),
                      vertexAttribDivisorANGLE (instancePosition info) 0,
                      vertexAttribDivisorANGLE (instanceSize info) 0,
                      vertexAttribDivisorANGLE (instanceColor info) 0]
               else fallback_loop this (length ps) ?P ?S ?C 0"
  let ?bs = "if instancedArraysExt this then batched_calls this info (length ps)
             else concat (map (particle_block this) ps)"
  have "appends (fallback_loop this (length ps) ?P ?S ?C 0) (concat (map (particle_block this) ps))"
    using appends_fallback_loop[of this "length ps" ?P ?S ?C 0]
    by (simp only: fallback_blocks_particles)
  then have body: "appends ?body ?bs"
    using appends_batched[of info this "length ps"]
    by (cases "instancedArraysExt this") (simp_all only: if_True if_False)
  have "drawParticles this (Some ps) g = Inr (run
                   [useProgram (program info),
                    uniform2f (resolution info) (canvas_width this) (canvas_height this),
                    bindBuffer CircleBuffer,
                    enableVertexAttribArray (vertexPosition info),
                    vertexAttribPointer (vertexPosition info) 2,
                    bindBuffer InstancePositionBuffer,
                    bufferData ?P DYNAMIC_DRAW,
                    enableVertexAttribArray (instancePosition info),
                    vertexAttribPointer (instancePosition info) 2,
                    bindBuffer InstanceSizeBuffer,
                    bufferData ?S DYNAMIC_DRAW,
                    enableVertexAttribArray (instanceSize info),
                    vertexAttribPointer (instanceSize info) 1,
                    bindBuffer InstanceColorBuffer,
                    bufferData ?C DYNAMIC_DRAW,
                    enableVertexAttribArray (instanceColor info),
                    vertexAttribPointer (instanceColor info) 4,
                    ?body,
                    disableVertexAttribArray (vertexPosition info),
                    disableVertexAttribArray (instancePosition info),
                    disableVertexAttribArray (instanceSize info),
                    disableVertexAttribArray (instanceColor info)] g)"
    using assms by (simp add: drawParticles_def instance_arrays_eq del: run.simps)
  moreover note appends_issued[OF appends_frame[OF body, of info this ?P ?S ?C], of g]
  ultimately show ?thesis by (simp only: sum.inject simp_thms ex_simps) 
qed

lemma filter_draw_setup: "filter is_draw (setup_calls this info P S C) = []"
  by (simp add: setup_calls_def)

lemma filter_draw_cleanup: "filter is_draw (cleanup_calls info) = []"
  by (simp add: cleanup_calls_def)

lemma filter_draw_batched:
  "filter is_draw (batched_calls this info n) =
     [DrawArraysInstancedANGLE TRIANGLE_FAN 0 (circleVertexCount this) n]"
  by (simp add: batched_calls_def)

lemma filter_draw_blocks:
  "filter is_draw (concat (map (particle_block this) ps)) =
     replicate (length ps) (DrawArrays TRIANGLE_FAN 0 (circleVertexCount this))"
  by (induction ps) (simp_all add: particle_block_def)

lemma scenario_facts:
  "scenario_particles \<noteq> []"
  "length scenario_particles = 2"
  "instancedArraysExt (scenario_renderer ext) = ext"
  "circleVertexCount (scenario_renderer ext) = 14"
  "has_gl (scenario_renderer ext)"
  "programInfo (scenario_renderer ext) = Some scenario_info"
  by (simp_all add: scenario_particles_def scenario_renderer_def)

lemma divisor_ops:
  "divisor (useProgram prog g) = divisor g"
  "divisor (uniform2f loc w h g) = divisor g"
  "divisor (bindBuffer b g) = divisor g"
  "divisor (bufferData d u g) = divisor g"
  "divisor (enableVertexAttribArray i g) = divisor g"
  "divisor (disableVertexAttribArray i g) = divisor g"
  "divisor (vertexAttribPointer i n g) = divisor g"
  "divisor (vertexAttribDivisorANGLE i dv g) = (divisor g)(i := dv)"
  "divisor (drawArraysInstancedANGLE m first n k g) = divisor g"
  "divisor (drawArrays m first n g) = divisor g"
  by (simp_all add: emit_def useProgram_def uniform2f_def bindBuffer_def bufferData_def
      enableVertexAttribArray_def disableVertexAttribArray_def vertexAttribPointer_def
      vertexAttribDivisorANGLE_def drawArraysInstancedANGLE_def drawArrays_def draw_def
      split: option.split)

lemma divisor_batched:
  assumes "has_gl this" "programInfo this = Some info" "instancedArraysExt this" "ps \<noteq> []"
    and "drawParticles this (Some ps) g = Inr g'"
  shows "divisor g' = (divisor g)(instancePosition info := 0, instanceSize info := 0,
                                   instanceColor info := 0)"
proof -
  have "divisor g' = (divisor g)(instancePosition info := 1, instanceSize info := 1,
           instanceColor info := 1, instancePosition info := 0, instanceSize info := 0,
           instanceColor info := 0)"
    using assms by (auto simp add: drawParticles_def divisor_ops split: prod.splits)
  also have "\<dots> = (divisor g)(instancePosition info := 0, instanceSize info := 0,
                                   instanceColor info := 0)"
    by (rule ext) simp
  finally show ?thesis .
qed

lemma instance_arrays_index:
  assumes "i < length ps"
  shows "concat (map position_of ps) ! (2 * i) = particle_x (ps ! i)"
    and "concat (map position_of ps) ! (2 * i + 1) = particle_y (ps ! i)"
    and "k < 4 \<Longrightarrow> concat (map color_of ps) ! (4 * i + k) = parseColor (particle_color (ps ! i)) ! k"
proof -
  have p: "\<forall>x \<in> set ps. length (position_of x) = 2" by (simp add: position_of_length)
  have c: "\<forall>x \<in> set ps. length (color_of x) = 4" by (simp add: color_of_length)
  have e: "position_of (ps ! i) ! 0 = particle_x (ps ! i)"
    "position_of (ps ! i) ! 1 = particle_y (ps ! i)"
    "color_of (ps ! i) = parseColor (particle_color (ps ! i))"
    by (simp_all add: position_of_def color_of_def)
  have m: "i * 2 + 0 = 2 * i" "i * 2 + 1 = 2 * i + 1" "i * 4 + k = 4 * i + k" by simp_all
  show "concat (map position_of ps) ! (2 * i) = particle_x (ps ! i)"
    using concat_uniform_nth[OF p assms, of 0] unfolding e m by simp
  show "concat (map position_of ps) ! (2 * i + 1) = particle_y (ps ! i)"
    using concat_uniform_nth[OF p assms, of 1] unfolding e m by simp
  show "concat (map color_of ps) ! (4 * i + k) = parseColor (particle_color (ps ! i)) ! k" if "k < 4"
    using concat_uniform_nth[OF c assms that] unfolding e m .
qed

lemma uploads_cleanup: "uploads_to b cur (cleanup_calls info) = []"
  by (simp add: cleanup_calls_def)

lemma uploads_batched: "uploads_to b cur (batched_calls this info n @ cleanup_calls info) = []"
  by (simp add: batched_calls_def cleanup_calls_def)

lemma uploads_blocks:
  "uploads_to InstancePositionBuffer cur (concat (map (particle_block this) ps) @ cleanup_calls info)
     = map position_of ps"
  "uploads_to InstanceSizeBuffer cur (concat (map (particle_block this) ps) @ cleanup_calls info)
     = map (\<lambda>p. [particle_size p]) ps"
  "uploads_to InstanceColorBuffer cur (concat (map (particle_block this) ps) @ cleanup_calls info)
     = map color_of ps"
  by (induction ps arbitrary: cur) (simp_all add: particle_block_def uploads_cleanup)

lemma uploads_setup:
  "uploads_to InstancePositionBuffer cur (setup_calls this info P S C @ rest)
     = P # uploads_to InstancePositionBuffer (Some InstanceColorBuffer) rest"
  "uploads_to InstanceSizeBuffer cur (setup_calls this info P S C @ rest)
     = S # uploads_to InstanceSizeBuffer (Some InstanceColorBuffer) rest"
  "uploads_to InstanceColorBuffer cur (setup_calls this info P S C @ rest)
     = C # uploads_to InstanceColorBuffer (Some InstanceColorBuffer) rest"
  by (simp_all add: setup_calls_def)

lemma slices_of_arrays:
  "map position_of ps =
     map (\<lambda>i. [concat (map position_of ps) ! (2 * i), concat (map position_of ps) ! (2 * i + 1)])
       [0..<length ps]"
  "map (\<lambda>p. [particle_size p]) ps = map (\<lambda>i. [map particle_size ps ! i]) [0..<length ps]"
  "map color_of ps =
     map (\<lambda>i. [concat (map color_of ps) ! (4 * i), concat (map color_of ps) ! (4 * i + 1),
                concat (map color_of ps) ! (4 * i + 2), concat (map color_of ps) ! (4 * i + 3)])
       [0..<length ps]"
proof -
  show "map position_of ps =
     map (\<lambda>i. [concat (map position_of ps) ! (2 * i), concat (map position_of ps) ! (2 * i + 1)])
       [0..<length ps]"
  proof (rule nth_equalityI)
    show "length (map position_of ps) = length (map (\<lambda>i. [concat (map position_of ps) ! (2 * i),
        concat (map position_of ps) ! (2 * i + 1)]) [0..<length ps])" by simp
  next
    fix i assume "i < length (map position_of ps)"
    then have i: "i < length ps" by simp
    have "position_of (ps ! i) = [particle_x (ps ! i), particle_y (ps ! i)]"
      by (simp add: position_of_def)
    also have "\<dots> = [concat (map position_of ps) ! (2 * i), concat (map position_of ps) ! (2 * i + 1)]"
      by (simp only: instance_arrays_index(1,2)[OF i])
    finally show "map position_of ps ! i = map (\<lambda>i. [concat (map position_of ps) ! (2 * i),
        concat (map position_of ps) ! (2 * i + 1)]) [0..<length ps] ! i"
      using i by simp
  qed
  show "map (\<lambda>p. [particle_size p]) ps = map (\<lambda>i. [map particle_size ps ! i]) [0..<length ps]"
    by (rule nth_equalityI) simp_all
  have c4: "c = [c ! 0, c ! 1, c ! 2, c ! 3]" if "length c = 4" for c :: "jsnum list"
    using read_at_all4[OF that] that by (simp add: read_at_def)
  show "map color_of ps =
     map (\<lambda>i. [concat (map color_of ps) ! (4 * i), concat (map color_of ps) ! (4 * i + 1),
                concat (map color_of ps) ! (4 * i + 2), concat (map color_of ps) ! (4 * i + 3)])
       [0..<length ps]"
  proof (rule nth_equalityI)
    show "length (map color_of ps) = length (map (\<lambda>i. [concat (map color_of ps) ! (4 * i), concat (map color_of ps) ! (4 * i + 1),
                concat (map color_of ps) ! (4 * i + 2), concat (map color_of ps) ! (4 * i + 3)])
       [0..<length ps])" by simp
  next
    fix i assume "i < length (map color_of ps)"
    then have i: "i < length ps" by simp
    have "color_of (ps ! i) = [color_of (ps ! i) ! 0, color_of (ps ! i) ! 1,
                               color_of (ps ! i) ! 2, color_of (ps ! i) ! 3]"
      by (rule c4) (rule color_of_length)
    moreover have "concat (map color_of ps) ! (4 * i) = color_of (ps ! i) ! 0"
      using instance_arrays_index(3)[OF i, of 0] by (simp add: color_of_def)
    moreover have "concat (map color_of ps) ! (4 * i + 1) = color_of (ps ! i) ! 1"
      using instance_arrays_index(3)[OF i, of 1] by (simp add: color_of_def)
    moreover have "concat (map color_of ps) ! (4 * i + 2) = color_of (ps ! i) ! 2"
      using instance_arrays_index(3)[OF i, of 2] by (simp add: color_of_def)
    moreover have "concat (map color_of ps) ! (4 * i + 3) = color_of (ps ! i) ! 3"
      using instance_arrays_index(3)[OF i, of 3] by (simp add: color_of_def)
    ultimately show "map color_of ps ! i = map (\<lambda>i. [concat (map color_of ps) ! (4 * i), concat (map color_of ps) ! (4 * i + 1),
                concat (map color_of ps) ! (4 * i + 2), concat (map color_of ps) ! (4 * i + 3)])
       [0..<length ps] ! i"
      using i by simp
  qed
qed


text \<open>Without a context or without a linked program, a call with particles raises.\<close>

lemma drawParticles_uninitialised:
  "\<not> initialised this \<Longrightarrow> ps \<noteq> [] \<Longrightarrow> drawParticles this (Some ps) g = Inl TypeError"
  by (auto simp add: drawParticles_def initialised_def split: prod.splits option.splits)

text \<open>The states of the fallback path: the colour attribute stays an enabled per-vertex
  array over a buffer of four floats, so no draw of two or more vertices passes the range
  check.\<close>


lemmas gl_op_defs = emit_def useProgram_def uniform2f_def bindBuffer_def bufferData_def
  enableVertexAttribArray_def disableVertexAttribArray_def vertexAttribPointer_def
  vertexAttribDivisorANGLE_def drawArraysInstancedANGLE_def drawArrays_def draw_def
  viewport_def enable_def clear_buffers_def

lemma setup_state:
  assumes "divisor g (instanceColor info) = 0" "instanceColor info < max_vertex_attribs g"
  shows "color_array_set info (run (setup_ops this info P S C) g)"
    "errors (run (setup_ops this info P S C) g) = errors g"
    "drawn (run (setup_ops this info P S C) g) = drawn g"
    "cap_enabled (run (setup_ops this info P S C) g) = cap_enabled g"
  using assms unfolding setup_ops_def color_array_set_def
  by (simp_all add: gl_op_defs)

lemma cleanup_state:
  "errors (run (cleanup_ops info) g) = errors g"
  "drawn (run (cleanup_ops info) g) = drawn g"
  "cap_enabled (run (cleanup_ops info) g) = cap_enabled g"
  unfolding cleanup_ops_def by (simp_all add: gl_op_defs)

lemma fetch_out_of_range:
  assumes "color_array_set info g" "store g InstanceColorBuffer = [a, b, c, d]" "2 \<le> n"
  shows "\<not> fetch_in_range g n 1"
proof -
  let ?i = "instanceColor info"
  from assms(1) have e: "attrib_enabled g ?i" and b: "attrib_buffer g ?i = Some InstanceColorBuffer"
    and s: "attrib_size g ?i = 4" and d: "divisor g ?i = 0" and m: "?i < max_vertex_attribs g"
    by (simp_all add: color_array_set_def)
  have "\<not> attrib_in_range g ?i n"
    using assms(2,3) b s by (simp add: attrib_in_range_def)
  moreover have "?i \<in> set [0..<max_vertex_attribs g]" using m by simp
  ultimately show ?thesis
    using e d unfolding fetch_in_range_def list_all_iff by (auto simp del: set_upt)
qed

lemma block_state:
  fixes p0 p1 s0 c0 c1 c2 c3 :: jsnum
  assumes "color_array_set info g" "2 \<le> circleVertexCount this"
  defines "g1 \<equiv> run [bindBuffer InstancePositionBuffer,
                bufferData [p0, p1] DYNAMIC_DRAW,
                bindBuffer InstanceSizeBuffer,
                bufferData [s0] DYNAMIC_DRAW,
                bindBuffer InstanceColorBuffer,
                bufferData [c0, c1, c2, c3] DYNAMIC_DRAW,
                drawArrays TRIANGLE_FAN 0 (circleVertexCount this)] g"
  shows "color_array_set info g1" "errors g1 = errors g @ [INVALID_OPERATION]"
    "drawn g1 = drawn g" "cap_enabled g1 = cap_enabled g"
proof -
  define g0 where "g0 = run [bindBuffer InstancePositionBuffer,
                bufferData [p0, p1] DYNAMIC_DRAW,
                bindBuffer InstanceSizeBuffer,
                bufferData [s0] DYNAMIC_DRAW,
                bindBuffer InstanceColorBuffer,
                bufferData [c0, c1, c2, c3] DYNAMIC_DRAW] g"
  have c0: "color_array_set info g0" and st: "store g0 InstanceColorBuffer = [c0, c1, c2, c3]"
    and f0: "errors g0 = errors g" "drawn g0 = drawn g" "cap_enabled g0 = cap_enabled g"
    using assms(1) unfolding g0_def color_array_set_def by (simp_all add: gl_op_defs)
  have g1: "g1 = drawArrays TRIANGLE_FAN 0 (circleVertexCount this) g0"
    unfolding g1_def g0_def by simp
  have nf: "\<not> fetch_in_range g0 (0 + circleVertexCount this) 1"
    by (rule fetch_out_of_range[OF c0 st]) (use assms(2) in simp)
  show "color_array_set info g1" "errors g1 = errors g @ [INVALID_OPERATION]"
    "drawn g1 = drawn g" "cap_enabled g1 = cap_enabled g"
    using c0 f0 nf unfolding g1 color_array_set_def
    by (simp_all add: drawArrays_def draw_def emit_def)
qed

lemma fallback_loop_state:
  assumes "color_array_set info g" "2 \<le> circleVertexCount this"
  shows "errors (fallback_loop this n P S C i g) = errors g @ replicate (n - i) INVALID_OPERATION \<and>
         drawn (fallback_loop this n P S C i g) = drawn g \<and>
         cap_enabled (fallback_loop this n P S C i g) = cap_enabled g"
  using assms(1)
proof (induction "n - i" arbitrary: i g)
  case 0
  then show ?case by (simp add: fallback_loop.simps)
next
  case (Suc k)
  then have lt: "i < n" and k: "k = n - (i + 1)" by simp_all
  let ?g = "run [bindBuffer InstancePositionBuffer,
                bufferData [read_at P (i * 2), read_at P (i * 2 + 1)] DYNAMIC_DRAW,
                bindBuffer InstanceSizeBuffer,
                bufferData [read_at S i] DYNAMIC_DRAW,
                bindBuffer InstanceColorBuffer,
                bufferData [read_at C (i * 4), read_at C (i * 4 + 1), read_at C (i * 4 + 2),
                            read_at C (i * 4 + 3)] DYNAMIC_DRAW,
                drawArrays TRIANGLE_FAN 0 (circleVertexCount this)] g"
  note b = block_state[OF Suc.prems assms(2), of "read_at P (i * 2)" "read_at P (i * 2 + 1)"
      "read_at S i" "read_at C (i * 4)" "read_at C (i * 4 + 1)" "read_at C (i * 4 + 2)"
      "read_at C (i * 4 + 3)"]
  have step: "fallback_loop this n P S C i g = fallback_loop this n P S C (i + 1) ?g"
    using lt by (subst fallback_loop.simps) simp
  have r: "replicate (n - i) INVALID_OPERATION = INVALID_OPERATION # replicate (n - (i + 1)) INVALID_OPERATION"
    using lt by (cases "n - i") simp_all
  show ?case
    unfolding step using Suc.hyps(1)[OF k b(1)] b(2,3,4) r
    by (simp del: run.simps)
qed


lemma drawParticles_fallback_run:
  assumes "has_gl this" "programInfo this = Some info" "\<not> instancedArraysExt this" "ps \<noteq> []"
    "instance_arrays ps = (P, S, C)"
  shows "drawParticles this (Some ps) g =
           Inr (run (cleanup_ops info)
                  (fallback_loop this (length ps) P S C 0 (run (setup_ops this info P S C) g)))"
  using assms unfolding drawParticles_def setup_ops_def cleanup_ops_def
  by (simp del: fallback_loop.simps)

lemma clear_state:
  assumes "has_gl this"
  shows "\<exists>g'. clear this g = Inr g' \<and> cap_enabled g' DEPTH_TEST \<and> errors g' = errors g \<and>
           drawn g' = drawn g \<and> divisor g' = divisor g \<and>
           max_vertex_attribs g' = max_vertex_attribs g \<and> store g' = store g"
  using assms unfolding clear_def by (simp add: gl_op_defs)





lemma circle_loop_eq:
  assumes "i \<le> segments + 1" "length vs + 2 * (segments + 1 - i) \<le> 4294967295"
  shows "circle_loop segments i vs = Inr (vs @ concat (map (ring segments) [i..<segments + 1]))"
  using assms
proof (induction "segments + 1 - i" arbitrary: i vs)
  case 0
  then have "i = segments + 1" by simp
  then show ?case by (simp add: circle_loop.simps)
next
  case (Suc k)
  then have le: "i \<le> segments" and k: "k = segments + 1 - (i + 1)" by simp_all
  let ?vs = "vs @ ring segments i"
  have p: "push2 vs (Math_cos (ring_angle segments i)) (Math_sin (ring_angle segments i)) = Inr ?vs"
    using Suc.prems(2) le by (simp add: push2_def ring_def)
  have step: "circle_loop segments i vs = circle_loop segments (i + 1) ?vs"
    using le p by (subst circle_loop.simps) (simp add: Let_def ring_angle_def)
  have "circle_loop segments (i + 1) ?vs =
          Inr (?vs @ concat (map (ring segments) [i + 1..<segments + 1]))"
    by (rule Suc.hyps(1)[OF k]) (use Suc.prems le in \<open>simp_all add: ring_def\<close>)
  moreover have "[i..<segments + 1] = i # [i + 1..<segments + 1]"
    using le by (simp add: upt_conv_Cons)
  ultimately show ?case using step by simp
qed

lemma circle_vertices_eq:
  assumes "2 * (segments + 2) \<le> 4294967295"
  shows "circle_vertices segments =
           Inr ([Num 0, Num 0] @ concat (map (ring segments) [0..<segments + 1]))"
proof -
  have "push2 [] (Num 0) (Num 0) = Inr [Num 0, Num 0]" by (simp add: push2_def)
  moreover have "circle_loop segments 0 [Num 0, Num 0] =
      Inr ([Num 0, Num 0] @ concat (map (ring segments) [0..<segments + 1]))"
    by (rule circle_loop_eq) (use assms in simp_all)
  ultimately show ?thesis by (simp add: circle_vertices_def)
qed

lemma ring_length: "length (ring segments i) = 2"
  by (simp add: ring_def)

lemma circle_list_props:
  fixes segments :: nat
  defines "vs \<equiv> [Num 0, Num 0] @ concat (map (ring segments) [0..<segments + 1])"
  shows "length vs = 2 * (segments + 2)"
    and "vertex_at vs 0 = (Num 0, Num 0)"
    and "i \<le> segments \<Longrightarrow>
           vertex_at vs (i + 1) = (Math_cos (ring_angle segments i), Math_sin (ring_angle segments i))"
proof -
  define ns where "ns = [0..<segments + 1]"
  have nl: "length ns = segments + 1" unfolding ns_def by (simp only: length_upt diff_zero)
  have ni: "ns ! i = i" if "i \<le> segments" for i
    unfolding ns_def using that by (simp del: upt_Suc)
  have v: "vs = [Num 0, Num 0] @ concat (map (ring segments) ns)"
    by (simp only: vs_def ns_def)
  have u: "\<forall>x \<in> set ns. length (ring segments x) = 2"
    by (simp add: ring_length)
  have lc: "length (concat (map (ring segments) ns)) = (segments + 1) * 2"
    using concat_uniform_length[OF u] nl by simp
  show l: "length vs = 2 * (segments + 2)" by (simp add: v lc)
  show "vertex_at vs 0 = (Num 0, Num 0)" by (simp add: v vertex_at_def read_at_def)
  show "vertex_at vs (i + 1) = (Math_cos (ring_angle segments i), Math_sin (ring_angle segments i))"
    if i: "i \<le> segments"
  proof -
    have il: "i < length ns" using i nl by simp
    have n0: "concat (map (ring segments) ns) ! (i * 2 + 0) = ring segments (ns ! i) ! 0"
      by (rule concat_uniform_nth[OF u il]) simp
    have n1: "concat (map (ring segments) ns) ! (i * 2 + 1) = ring segments (ns ! i) ! 1"
      by (rule concat_uniform_nth[OF u il]) simp
    have a: "vs ! (2 * (i + 1)) = concat (map (ring segments) ns) ! (i * 2 + 0)"
      by (simp add: v nth_append mult.commute)
    have b: "vs ! (2 * (i + 1) + 1) = concat (map (ring segments) ns) ! (i * 2 + 1)"
      by (simp add: v nth_append mult.commute)
    have r: "2 * (i + 1) < length vs" "2 * (i + 1) + 1 < length vs" using i l by simp_all
    show ?thesis
      unfolding vertex_at_def read_at_def using r
      by (simp only: a b n0 n1 ni[OF i] if_True) (simp add: ring_def)
  qed
qed


lemma circle_12:
  "circle_vertices 12 = Inr (vertices_of (circle_vertices 12))"
  "length (vertices_of (circle_vertices 12)) = 28"
proof -
  have h: "2 * (12 + 2) \<le> (4294967295 :: nat)" by simp
  show "circle_vertices 12 = Inr (vertices_of (circle_vertices 12))"
    by (simp only: circle_vertices_eq[OF h] vertices_of_def sum.case)
  show "length (vertices_of (circle_vertices 12)) = 28"
    using circle_list_props(1)[where segments = 12]
    by (simp only: circle_vertices_eq[OF h] vertices_of_def sum.case) simp
qed

lemma constructed_context_fields:
  "store constructed_context CircleBuffer = vertices_of (circle_vertices 12)"
  "attrib_enabled constructed_context = (\<lambda>_. False)"
  "divisor constructed_context = (\<lambda>_. 0)"
  "max_vertex_attribs constructed_context = 16"
  "errors constructed_context = []"
  "drawn constructed_context = []"
  "cap_enabled constructed_context = (\<lambda>_. False)"
proof -
  define V where "V = vertices_of (circle_vertices 12)"
  have c: "circle_vertices 12 = Inr V" unfolding V_def by (rule circle_12(1))
  have g: "constructed_context = run [bindBuffer CircleBuffer, bufferData V STATIC_DRAW] fresh_context"
    unfolding constructed_context_def initBuffers_def Let_def c by simp
  show "store constructed_context CircleBuffer = vertices_of (circle_vertices 12)"
    "attrib_enabled constructed_context = (\<lambda>_. False)"
    "divisor constructed_context = (\<lambda>_. 0)"
    "max_vertex_attribs constructed_context = 16"
    "errors constructed_context = []"
    "drawn constructed_context = []"
    "cap_enabled constructed_context = (\<lambda>_. False)"
    unfolding g V_def[symmetric]
    by (simp_all add: fresh_context_def bindBuffer_def bufferData_def emit_def)
qed

text \<open>On the batched path the draw of the scenario passes the range check.\<close>

lemma batched_draw_accepted:
  "\<exists>g'. drawParticles (scenario_renderer True) (Some scenario_particles) constructed_context = Inr g' \<and>
     errors g' = [] \<and> drawn g' = [DrawArraysInstancedANGLE TRIANGLE_FAN 0 14 2]"
proof -
  have n: "[0..<16] = [0, 1, 2, 3, 4, 5, 6, 7, 8, 9, 10, 11, 12, 13, 14, 15 :: nat]"
    by (simp add: upt_rec)
  have c: "length (parseColor ''#ffffff'') = 4" by (rule parseColor_length)
  show ?thesis
    unfolding drawParticles_def
    by (simp add: instance_arrays_eq scenario_particles_def scenario_renderer_def scenario_info_def gl_op_defs
        fetch_in_range_def attrib_in_range_def constructed_context_fields circle_12(2) n c
        position_of_def color_of_def)
qed

section \<open>The claims\<close>

text \<open>
  C9. Called with \<open>null\<close> or \<open>undefined\<close>, \<open>drawParticles\<close> returns at once and
  leaves the context as it was: nothing is built, uploaded or drawn. This holds for
  every renderer, initialised or not.
\<close>

theorem drawParticles_null_noop: "drawParticles this None g = Inr g"
  by (simp add: drawParticles_def)

text \<open>
  C1. On a renderer that was constructed with a context and a linked program, a call
  with \<open>N\<close> particles returns normally. With no particle it changes nothing and draws
  nothing. With \<open>N \<ge> 1\<close> particles the draw commands it issues are exactly one
  instanced \<open>TRIANGLE_FAN\<close> draw with instance count \<open>N\<close> when the extension was
  found, and exactly \<open>N\<close> plain \<open>TRIANGLE_FAN\<close> draws when it was not.
\<close>

theorem drawParticles_draw_commands:
  assumes "initialised this"
  shows "\<exists>g'. drawParticles this (Some ps) g = Inr g' \<and>
           (ps = [] \<longrightarrow> g' = g) \<and>
           filter is_draw (issued g g') =
             (if ps = [] then []
              else if instancedArraysExt this
                then [DrawArraysInstancedANGLE TRIANGLE_FAN 0 (circleVertexCount this) (length ps)]
                else replicate (length ps) (DrawArrays TRIANGLE_FAN 0 (circleVertexCount this)))"
proof (cases "ps = []")
  case True
  then show ?thesis by (simp add: drawParticles_def issued_def)
next
  case False
  from assms obtain info where gl: "has_gl this" and info: "programInfo this = Some info"
    by (auto simp: initialised_def)
  from drawParticles_issued[OF gl info False, of g] obtain g' where
    r: "drawParticles this (Some ps) g = Inr g'" and
    i: "issued g g' = setup_calls this info (concat (map position_of ps)) (map particle_size ps)
               (concat (map color_of ps))
             @ (if instancedArraysExt this then batched_calls this info (length ps)
                else concat (map (particle_block this) ps))
             @ cleanup_calls info"
    by blast
  have "filter is_draw (issued g g') =
          (if instancedArraysExt this
           then [DrawArraysInstancedANGLE TRIANGLE_FAN 0 (circleVertexCount this) (length ps)]
           else replicate (length ps) (DrawArrays TRIANGLE_FAN 0 (circleVertexCount this)))"
    unfolding i
    by (simp add: filter_draw_setup filter_draw_cleanup filter_draw_batched filter_draw_blocks)
  with r False show ?thesis by simp
qed

theorem drawParticles_draw_commands_witness:
  "initialised (scenario_renderer True) \<and>
   (\<exists>g'. drawParticles (scenario_renderer True) (Some scenario_particles) fresh_context = Inr g' \<and>
      filter is_draw (issued fresh_context g') = [DrawArraysInstancedANGLE TRIANGLE_FAN 0 14 2])"
proof -
  have h: "initialised (scenario_renderer True)"
    by (simp add: initialised_def scenario_facts)
  show ?thesis
    using h drawParticles_draw_commands[OF h, of scenario_particles fresh_context]
    by (simp add: scenario_facts)
qed

text \<open>
  C7. On the batched path (extension present, at least one particle, renderer
  initialised) the call returns normally, and in the context it leaves behind the
  divisor of each of the three instance attributes (position, size, colour) is 0,
  while every other attribute keeps the divisor it had. The three resetting commands
  follow the one instanced draw directly, before the clean-up; no other draw is issued.
\<close>

theorem drawParticles_resets_divisors:
  assumes "has_gl this" and "programInfo this = Some info" and "instancedArraysExt this"
    and "ps \<noteq> []"
  shows "\<exists>g'. drawParticles this (Some ps) g = Inr g' \<and>
           divisor g' (instancePosition info) = 0 \<and>
           divisor g' (instanceSize info) = 0 \<and>
           divisor g' (instanceColor info) = 0 \<and>
           (\<forall>i. i \<notin> {instancePosition info, instanceSize info, instanceColor info}
                 \<longrightarrow> divisor g' i = divisor g i) \<and>
           (\<exists>pre. filter is_draw pre = [] \<and>
              issued g g' =
                pre @ [DrawArraysInstancedANGLE TRIANGLE_FAN 0 (circleVertexCount this) (length ps),
                       VertexAttribDivisorANGLE (instancePosition info) 0,
                       VertexAttribDivisorANGLE (instanceSize info) 0,
                       VertexAttribDivisorANGLE (instanceColor info) 0,
                       DisableVertexAttribArray (vertexPosition info),
                       DisableVertexAttribArray (instancePosition info),
                       DisableVertexAttribArray (instanceSize info),
                       DisableVertexAttribArray (instanceColor info)])"
proof -
  let ?P = "concat (map position_of ps)"
  let ?S = "map particle_size ps"
  let ?C = "concat (map color_of ps)"
  from drawParticles_issued[OF assms(1,2,4), of g] assms(3) obtain g' where
    r: "drawParticles this (Some ps) g = Inr g'" and
    i: "issued g g' = setup_calls this info ?P ?S ?C @ batched_calls this info (length ps)
                        @ cleanup_calls info"
    by auto
  have d: "divisor g' = (divisor g)(instancePosition info := 0, instanceSize info := 0,
                                     instanceColor info := 0)"
    using divisor_batched[OF assms r] .
  let ?pre = "setup_calls this info ?P ?S ?C @
              [VertexAttribDivisorANGLE (instancePosition info) 1,
               VertexAttribDivisorANGLE (instanceSize info) 1,
               VertexAttribDivisorANGLE (instanceColor info) 1]"
  have p1: "filter is_draw ?pre = []"
    by (simp add: filter_draw_setup)
  have p2: "issued g g' =
                ?pre @ [DrawArraysInstancedANGLE TRIANGLE_FAN 0 (circleVertexCount this) (length ps),
                       VertexAttribDivisorANGLE (instancePosition info) 0,
                       VertexAttribDivisorANGLE (instanceSize info) 0,
                       VertexAttribDivisorANGLE (instanceColor info) 0,
                       DisableVertexAttribArray (vertexPosition info),
                       DisableVertexAttribArray (instancePosition info),
                       DisableVertexAttribArray (instanceSize info),
                       DisableVertexAttribArray (instanceColor info)]"
    unfolding i by (simp add: batched_calls_def cleanup_calls_def)
  from p1 p2 have "\<exists>pre. filter is_draw pre = [] \<and>
              issued g g' =
                pre @ [DrawArraysInstancedANGLE TRIANGLE_FAN 0 (circleVertexCount this) (length ps),
                       VertexAttribDivisorANGLE (instancePosition info) 0,
                       VertexAttribDivisorANGLE (instanceSize info) 0,
                       VertexAttribDivisorANGLE (instanceColor info) 0,
                       DisableVertexAttribArray (vertexPosition info),
                       DisableVertexAttribArray (instancePosition info),
                       DisableVertexAttribArray (instanceSize info),
                       DisableVertexAttribArray (instanceColor info)]"
    by blast
  with r d show ?thesis by simp
qed

theorem drawParticles_resets_divisors_witness:
  "has_gl (scenario_renderer True) \<and> programInfo (scenario_renderer True) = Some scenario_info \<and>
   instancedArraysExt (scenario_renderer True) \<and> scenario_particles \<noteq> [] \<and>
   (\<exists>g'. drawParticles (scenario_renderer True) (Some scenario_particles)
            (fresh_context\<lparr>divisor := (\<lambda>i. if i = 7 then 1 else 0)\<rparr>) = Inr g' \<and>
      divisor g' 1 = 0 \<and> divisor g' 2 = 0 \<and> divisor g' 3 = 0 \<and> divisor g' 7 = 1)"
  using drawParticles_resets_divisors[of "scenario_renderer True" scenario_info scenario_particles
      "fresh_context\<lparr>divisor := (\<lambda>i. if i = 7 then 1 else 0)\<rparr>"]
  by (auto simp add: scenario_facts scenario_info_def)

text \<open>
  C2. On the fallback path (no extension) of an initialised renderer with a circle of
  at least two vertices, a call on a non-empty list returns normally and issues the
  common set-up, then one block per particle in the order of the input list (the
  uploads of the one-element slices of its position, size and colour, then one
  \<open>TRIANGLE_FAN\<close> draw over the circle), then the clean-up. The set-up has left the
  colour attribute an enabled array that advances per vertex, and each block has just
  replaced its buffer by the four floats of one colour; the draw asks for
  \<open>circleVertexCount\<close> vertices of it. So every draw of the loop fails the range
  check of enabled arrays with \<open>INVALID_OPERATION\<close>, and the call draws nothing:
  no particle is drawn, neither below nor on top of another. The comment of the loop
  expects it to ``still work'', and on the batched path, where the same arrays advance
  per instance, the draw passes the check (\<open>batched_draw_accepted\<close>). The call
  leaves the capabilities as they were, so after \<open>clear()\<close> the depth test stays
  enabled (\<open>clear_state\<close>).
\<close>

theorem drawParticles_fallback_draws_rejected:
  assumes "has_gl this" and "programInfo this = Some info" and "\<not> instancedArraysExt this"
    and "ps \<noteq> []" and "2 \<le> circleVertexCount this"
    and "instanceColor info < max_vertex_attribs g" and "divisor g (instanceColor info) = 0"
  shows "\<exists>g'. drawParticles this (Some ps) g = Inr g' \<and>
           issued g g' =
             setup_calls this info (concat (map position_of ps)) (map particle_size ps)
               (concat (map color_of ps))
             @ concat (map (particle_block this) ps) @ cleanup_calls info \<and>
           errors g' = errors g @ replicate (length ps) INVALID_OPERATION \<and>
           drawn g' = drawn g \<and>
           cap_enabled g' = cap_enabled g"
proof -
  obtain P S C where a: "instance_arrays ps = (P, S, C)"
    by (cases "instance_arrays ps") blast
  define g1 where "g1 = run (setup_ops this info P S C) g"
  define g2 where "g2 = fallback_loop this (length ps) P S C 0 g1"
  define g3 where "g3 = run (cleanup_ops info) g2"
  have r: "drawParticles this (Some ps) g = Inr g3"
    unfolding g3_def g2_def g1_def by (rule drawParticles_fallback_run[OF assms(1-4) a])
  note s = setup_state[OF assms(7,6), of this P S C, folded g1_def]
  note l = fallback_loop_state[OF s(1) assms(5), of "length ps" P S C 0, folded g2_def]
  note c = cleanup_state[of info g2, folded g3_def]
  from drawParticles_issued[OF assms(1,2,4), of g] r assms(3)
  have i: "issued g g3 =
             setup_calls this info (concat (map position_of ps)) (map particle_size ps)
               (concat (map color_of ps))
             @ concat (map (particle_block this) ps) @ cleanup_calls info"
    by simp
  have "errors g3 = errors g @ replicate (length ps) INVALID_OPERATION"
    "drawn g3 = drawn g" "cap_enabled g3 = cap_enabled g"
    using s(2,3,4) l c by simp_all
  with r i show ?thesis by blast
qed

theorem drawParticles_fallback_draws_rejected_witness:
  "has_gl (scenario_renderer False) \<and> programInfo (scenario_renderer False) = Some scenario_info \<and>
   \<not> instancedArraysExt (scenario_renderer False) \<and> scenario_particles \<noteq> [] \<and>
   2 \<le> circleVertexCount (scenario_renderer False) \<and>
   (\<exists>gc g'. clear (scenario_renderer False) constructed_context = Inr gc \<and>
      instanceColor scenario_info < max_vertex_attribs gc \<and>
      divisor gc (instanceColor scenario_info) = 0 \<and>
      drawParticles (scenario_renderer False) (Some scenario_particles) gc = Inr g' \<and>
      filter is_draw (issued gc g') = [DrawArrays TRIANGLE_FAN 0 14, DrawArrays TRIANGLE_FAN 0 14] \<and>
      errors g' = [INVALID_OPERATION, INVALID_OPERATION] \<and> drawn g' = [] \<and>
      cap_enabled g' DEPTH_TEST)"
proof -
  have h: "has_gl (scenario_renderer False)"
    "programInfo (scenario_renderer False) = Some scenario_info"
    "\<not> instancedArraysExt (scenario_renderer False)" "scenario_particles \<noteq> []"
    "2 \<le> circleVertexCount (scenario_renderer False)"
    by (simp_all add: scenario_facts)
  from clear_state[OF h(1), of constructed_context]
  obtain gc where gc: "clear (scenario_renderer False) constructed_context = Inr gc"
    "cap_enabled gc DEPTH_TEST" "errors gc = []" "drawn gc = []"
    "divisor gc = (\<lambda>_. 0)" "max_vertex_attribs gc = 16"
    by (auto simp add: constructed_context_fields)
  have b: "instanceColor scenario_info < max_vertex_attribs gc"
    "divisor gc (instanceColor scenario_info) = 0"
    by (simp_all add: gc scenario_info_def)
  from drawParticles_fallback_draws_rejected[OF h b]
  obtain g' where g':
    "drawParticles (scenario_renderer False) (Some scenario_particles) gc = Inr g'"
    "issued gc g' =
       setup_calls (scenario_renderer False) scenario_info
         (concat (map position_of scenario_particles)) (map particle_size scenario_particles)
         (concat (map color_of scenario_particles))
       @ concat (map (particle_block (scenario_renderer False)) scenario_particles)
       @ cleanup_calls scenario_info"
    "errors g' = errors gc @ replicate (length scenario_particles) INVALID_OPERATION"
    "drawn g' = drawn gc" "cap_enabled g' = cap_enabled gc"
    by blast
  have d: "filter is_draw (issued gc g') = [DrawArrays TRIANGLE_FAN 0 14, DrawArrays TRIANGLE_FAN 0 14]"
    unfolding g'(2)
    by (simp add: setup_calls_def cleanup_calls_def particle_block_def scenario_particles_def
        scenario_facts)
  have e: "errors g' = [INVALID_OPERATION, INVALID_OPERATION]"
    unfolding g'(3) by (simp add: gc scenario_facts eval_nat_numeral)
  show ?thesis
    using h gc(1,2) b g'(1,4,5) d e by (auto simp add: gc)
qed

text \<open>
  C3. For a call with \<open>N \<ge> 1\<close> particles on an initialised renderer, the three
  arrays built from the particles have lengths \<open>2N\<close>, \<open>N\<close> and \<open>4N\<close>; particle
  \<open>i\<close> fills \<open>positions[2i], positions[2i+1]\<close> with its \<open>x, y\<close>, \<open>sizes[i]\<close>
  with its size and \<open>colors[4i..4i+3]\<close> with its parsed colour. The arrays are a
  function of the particle list alone: whatever state the context is in (so also after
  any earlier call), the call returns normally and the arrays it uploads in its set-up
  are these.
\<close>

theorem instance_arrays_rebuilt:
  assumes "has_gl this" and "programInfo this = Some info" and "ps \<noteq> []"
  shows "\<exists>positions sizes colors.
           instance_arrays ps = (positions, sizes, colors) \<and>
           length positions = 2 * length ps \<and>
           length sizes = length ps \<and>
           length colors = 4 * length ps \<and>
           (\<forall>i<length ps.
              positions ! (2 * i) = particle_x (ps ! i) \<and>
              positions ! (2 * i + 1) = particle_y (ps ! i) \<and>
              sizes ! i = particle_size (ps ! i) \<and>
              (\<forall>k<4. colors ! (4 * i + k) = parseColor (particle_color (ps ! i)) ! k)) \<and>
           (\<forall>g. \<exists>g' rest. drawParticles this (Some ps) g = Inr g' \<and>
                    issued g g' = setup_calls this info positions sizes colors @ rest)"
proof -
  let ?P = "concat (map position_of ps)"
  let ?S = "map particle_size ps"
  let ?C = "concat (map color_of ps)"
  have a: "instance_arrays ps = (?P, ?S, ?C)" by (rule instance_arrays_eq)
  have lP: "length ?P = 2 * length ps"
    using concat_uniform_length[of ps position_of 2] by (simp add: position_of_length)
  have lC: "length ?C = 4 * length ps"
    using concat_uniform_length[of ps color_of 4] by (simp add: color_of_length)
  have ix: "\<forall>i<length ps.
              ?P ! (2 * i) = particle_x (ps ! i) \<and>
              ?P ! (2 * i + 1) = particle_y (ps ! i) \<and>
              ?S ! i = particle_size (ps ! i) \<and>
              (\<forall>k<4. ?C ! (4 * i + k) = parseColor (particle_color (ps ! i)) ! k)"
    using instance_arrays_index by simp
  have dr: "\<forall>g. \<exists>g' rest. drawParticles this (Some ps) g = Inr g' \<and>
                    issued g g' = setup_calls this info ?P ?S ?C @ rest"
  proof
    fix g
    from drawParticles_issued[OF assms, of g] show "\<exists>g' rest. drawParticles this (Some ps) g = Inr g' \<and>
                    issued g g' = setup_calls this info ?P ?S ?C @ rest"
      by blast
  qed
  from a lP lC ix dr show ?thesis by simp
qed

theorem instance_arrays_rebuilt_witness:
  "has_gl (scenario_renderer True) \<and> programInfo (scenario_renderer True) = Some scenario_info \<and>
   scenario_particles \<noteq> [] \<and>
   (\<exists>positions sizes colors.
      instance_arrays scenario_particles = (positions, sizes, colors) \<and>
      length positions = 4 \<and> length sizes = 2 \<and> length colors = 8)"
  using instance_arrays_rebuilt[of "scenario_renderer True" scenario_info scenario_particles]
  by (simp add: scenario_facts) blast

text \<open>
  C10. Take one initialised renderer, once with and once without the extension, and
  the same particles (at least one) in the same context. Both calls return normally
  and both first upload the same three whole arrays \<open>positions\<close>, \<open>sizes\<close>,
  \<open>colors\<close>, of lengths \<open>2N\<close>, \<open>N\<close>, \<open>4N\<close>. The batched call uploads nothing
  else. The fallback call then uploads, for \<open>i = 0, \<dots>, N - 1\<close> in this order, to the
  position buffer \<open>[positions[2i], positions[2i+1]]\<close>, to the size buffer
  \<open>[sizes[i]]\<close> and to the colour buffer \<open>[colors[4i], \<dots>, colors[4i+3]]\<close>: exactly
  the elements of the arrays that the batched call uploaded whole.
\<close>

theorem fallback_uploads_slices_of_batched:
  assumes "has_gl this" and "programInfo this = Some info" and "ps \<noteq> []"
  shows "\<exists>gb gf positions sizes colors.
           drawParticles (this\<lparr>instancedArraysExt := True\<rparr>) (Some ps) g = Inr gb \<and>
           drawParticles (this\<lparr>instancedArraysExt := False\<rparr>) (Some ps) g = Inr gf \<and>
           length positions = 2 * length ps \<and> length sizes = length ps \<and>
           length colors = 4 * length ps \<and>
           uploads_to InstancePositionBuffer (array_buffer g) (issued g gb) = [positions] \<and>
           uploads_to InstanceSizeBuffer (array_buffer g) (issued g gb) = [sizes] \<and>
           uploads_to InstanceColorBuffer (array_buffer g) (issued g gb) = [colors] \<and>
           uploads_to InstancePositionBuffer (array_buffer g) (issued g gf) =
             positions # map (\<lambda>i. [positions ! (2 * i), positions ! (2 * i + 1)]) [0..<length ps] \<and>
           uploads_to InstanceSizeBuffer (array_buffer g) (issued g gf) =
             sizes # map (\<lambda>i. [sizes ! i]) [0..<length ps] \<and>
           uploads_to InstanceColorBuffer (array_buffer g) (issued g gf) =
             colors # map (\<lambda>i. [colors ! (4 * i), colors ! (4 * i + 1), colors ! (4 * i + 2),
                                   colors ! (4 * i + 3)]) [0..<length ps]"
proof -
  let ?P = "concat (map position_of ps)"
  let ?S = "map particle_size ps"
  let ?C = "concat (map color_of ps)"
  let ?b = "this\<lparr>instancedArraysExt := True\<rparr>"
  let ?f = "this\<lparr>instancedArraysExt := False\<rparr>"
  have hb: "has_gl ?b" "programInfo ?b = Some info" and hf: "has_gl ?f" "programInfo ?f = Some info"
    using assms by simp_all
  from drawParticles_issued[OF hb assms(3), of g] obtain gb where
    rb: "drawParticles ?b (Some ps) g = Inr gb" and
    ib: "issued g gb = setup_calls ?b info ?P ?S ?C @ batched_calls ?b info (length ps)
                        @ cleanup_calls info"
    by auto
  from drawParticles_issued[OF hf assms(3), of g] obtain gf where
    rf: "drawParticles ?f (Some ps) g = Inr gf" and
    "issued g gf = setup_calls ?f info ?P ?S ?C @ concat (map (particle_block ?f) ps)
                        @ cleanup_calls info"
    by auto
  note uf = this(2)
  have lP: "length ?P = 2 * length ps"
    using concat_uniform_length[of ps position_of 2] by (simp add: position_of_length)
  have lC: "length ?C = 4 * length ps"
    using concat_uniform_length[of ps color_of 4] by (simp add: color_of_length)
  have b1: "uploads_to InstancePositionBuffer (array_buffer g) (issued g gb) = [?P]"
    and b2: "uploads_to InstanceSizeBuffer (array_buffer g) (issued g gb) = [?S]"
    and b3: "uploads_to InstanceColorBuffer (array_buffer g) (issued g gb) = [?C]"
    unfolding ib by (simp_all only: uploads_setup uploads_batched)
  have f1: "uploads_to InstancePositionBuffer (array_buffer g) (issued g gf) =
             ?P # map (\<lambda>i. [?P ! (2 * i), ?P ! (2 * i + 1)]) [0..<length ps]"
    unfolding uf by (simp only: uploads_setup uploads_blocks) (simp only: slices_of_arrays(1)[symmetric])
  have f2: "uploads_to InstanceSizeBuffer (array_buffer g) (issued g gf) =
             ?S # map (\<lambda>i. [?S ! i]) [0..<length ps]"
    unfolding uf by (simp only: uploads_setup uploads_blocks) (simp only: slices_of_arrays(2)[symmetric])
  have f3: "uploads_to InstanceColorBuffer (array_buffer g) (issued g gf) =
             ?C # map (\<lambda>i. [?C ! (4 * i), ?C ! (4 * i + 1), ?C ! (4 * i + 2),
                                   ?C ! (4 * i + 3)]) [0..<length ps]"
    unfolding uf by (simp only: uploads_setup uploads_blocks) (simp only: slices_of_arrays(3)[symmetric])
  from rb rf lP lC b1 b2 b3 f1 f2 f3 show ?thesis
    by (intro exI[of _ gb] exI[of _ gf] exI[of _ ?P] exI[of _ ?S] exI[of _ ?C]) simp
qed

theorem fallback_uploads_slices_of_batched_witness:
  "has_gl (scenario_renderer True) \<and> programInfo (scenario_renderer True) = Some scenario_info \<and>
   scenario_particles \<noteq> [] \<and>
   (\<exists>gb gf positions.
      drawParticles (scenario_renderer True) (Some scenario_particles) fresh_context = Inr gb \<and>
      drawParticles (scenario_renderer False) (Some scenario_particles) fresh_context = Inr gf \<and>
      length positions = 4 \<and>
      uploads_to InstancePositionBuffer None (issued fresh_context gb) = [positions] \<and>
      uploads_to InstancePositionBuffer None (issued fresh_context gf) =
        [positions, [positions ! 0, positions ! 1], [positions ! 2, positions ! 3]])"
proof -
  have e: "(scenario_renderer True)\<lparr>instancedArraysExt := True\<rparr> = scenario_renderer True"
      "(scenario_renderer True)\<lparr>instancedArraysExt := False\<rparr> = scenario_renderer False"
    by (simp_all add: scenario_renderer_def)
  have a: "array_buffer fresh_context = None" by (simp add: fresh_context_def)
  have u: "[0..<length scenario_particles] = [0, 1]"
    by (simp add: scenario_facts upt_conv_Cons)
  show ?thesis
    using fallback_uploads_slices_of_batched[of "scenario_renderer True" scenario_info
        scenario_particles fresh_context]
    unfolding e a u
    by (simp add: scenario_facts) blast
qed

text \<open>
  C4. For a string \<open>#RRGGBB\<close> of a hash sign and six hex digits (either case),
  \<open>parseColor\<close> returns \<open>(r/255, g/255, b/255, 1)\<close>, where \<open>r\<close>, \<open>g\<close>, \<open>b\<close> are
  the values of the three pairs of digits. In particular \<open>#ff0000\<close> gives
  \<open>(1, 0, 0, 1)\<close> and \<open>#000000\<close> gives \<open>(0, 0, 0, 1)\<close>.
\<close>

theorem parseColor_hex:
  assumes "hex_digit r1 = Some R1" and "hex_digit r2 = Some R2"
    and "hex_digit g1 = Some G1" and "hex_digit g2 = Some G2"
    and "hex_digit b1 = Some B1" and "hex_digit b2 = Some B2"
  shows "parseColor [CHR ''#'', r1, r2, g1, g2, b1, b2] =
           [Num (real (16 * R1 + R2) / 255), Num (real (16 * G1 + G2) / 255),
            Num (real (16 * B1 + B2) / 255), Num 1]
         \<and> parseColor ''#ff0000'' = [Num 1, Num 0, Num 0, Num 1]
         \<and> parseColor ''#000000'' = [Num 0, Num 0, Num 0, Num 1]"
proof -
  have s: "slice 1 3 [CHR ''#'', r1, r2, g1, g2, b1, b2] = [r1, r2]"
    "slice 3 5 [CHR ''#'', r1, r2, g1, g2, b1, b2] = [g1, g2]"
    "slice 5 7 [CHR ''#'', r1, r2, g1, g2, b1, b2] = [b1, b2]"
    by (simp_all add: slice_def)
  have n: "\<not> startsWith [CHR ''#'', r1, r2, g1, g2, b1, b2] ''hsl''"
    and h: "startsWith [CHR ''#'', r1, r2, g1, g2, b1, b2] ''#''"
    by (simp_all add: startsWith_def)
  have channel: "parseInt [a, b] (Some 16) / Num 255 = Num (real (16 * A + B) / 255)"
    if "hex_digit a = Some A" "hex_digit b = Some B" for a b A B
  proof -
    have "A < 16" "B < 16" using hex_digit_props(2) that by blast+
    then have "\<bar>real (16 * A + B)\<bar> \<le> 10 ^ 9" by simp
    then have "Num (real (16 * A + B)) / Num 255 = Num (real (16 * A + B) / 255)"
      by (rule small_divide) simp
    then show ?thesis by (simp only: parseInt_hex_pair[OF that])
  qed
  have general: "parseColor [CHR ''#'', r1, r2, g1, g2, b1, b2] =
           [Num (real (16 * R1 + R2) / 255), Num (real (16 * G1 + G2) / 255),
            Num (real (16 * B1 + B2) / 255), Num 1]"
    unfolding parseColor_def Let_def s
    by (simp only: n h if_False if_True simp_thms channel[OF assms(1,2)] channel[OF assms(3,4)]
        channel[OF assms(5,6)])
  have red: "parseColor ''#ff0000'' = [Num 1, Num 0, Num 0, Num 1]" by code_simp
  have blk: "parseColor ''#000000'' = [Num 0, Num 0, Num 0, Num 1]" by code_simp
  from general red blk show ?thesis by simp
qed

theorem parseColor_hex_witness:
  "hex_digit CHR ''3'' = Some 3 \<and> hex_digit CHR ''c'' = Some 12 \<and> hex_digit CHR ''F'' = Some 15 \<and>
   hex_digit CHR ''0'' = Some 0 \<and> hex_digit CHR ''9'' = Some 9 \<and> hex_digit CHR ''a'' = Some 10 \<and>
   parseColor ''#3cF09a'' = [Num (60 / 255), Num (240 / 255), Num (154 / 255), Num 1]"
proof -
  have h: "hex_digit CHR ''3'' = Some 3" "hex_digit CHR ''c'' = Some 12" "hex_digit CHR ''F'' = Some 15"
    "hex_digit CHR ''0'' = Some 0" "hex_digit CHR ''9'' = Some 9" "hex_digit CHR ''a'' = Some 10"
    by (simp_all add: hex_digit_def)
  from parseColor_hex[OF h] h show ?thesis by simp
qed

text \<open>
  C6, as the code has it. A string that does not begin with \<open>#\<close>, and that does not
  begin with \<open>hsl\<close> or holds no match of the HSL pattern, is parsed to opaque black
  \<open>(0, 0, 0, 1)\<close>; the empty string and \<open>purple\<close> are such strings. A string that
  begins with \<open>#\<close> is always read as hex, whatever follows: its channels are what
  \<open>parseInt\<close> makes of the characters at positions 1 to 2, 3 to 4 and 5 to 6, over
  255. \<open>parseColor\<close> raises nothing on a string.
\<close>

theorem parseColor_default_black:
  "(\<not> startsWith s ''#'' \<and> (\<not> startsWith s ''hsl'' \<or> hsl_match s = None)
      \<longrightarrow> parseColor s = black)
   \<and> (startsWith s ''#'' \<longrightarrow>
        parseColor s =
          [parseInt (slice 1 3 s) (Some 16) / Num 255,
           parseInt (slice 3 5 s) (Some 16) / Num 255,
           parseInt (slice 5 7 s) (Some 16) / Num 255,
           Num 1])
   \<and> parseColor '''' = black \<and> parseColor ''purple'' = black"
proof -
  have a: "parseColor s = black"
    if "\<not> startsWith s ''#''" "\<not> startsWith s ''hsl'' \<or> hsl_match s = None"
    using that by (auto simp add: parseColor_def black_def)
  have b: "parseColor s =
          [parseInt (slice 1 3 s) (Some 16) / Num 255,
           parseInt (slice 3 5 s) (Some 16) / Num 255,
           parseInt (slice 5 7 s) (Some 16) / Num 255,
           Num 1]"
    if "startsWith s ''#''"
  proof -
    from that have "\<not> startsWith s ''hsl''"
      by (cases s) (auto simp add: startsWith_def)
    with that show ?thesis by (simp add: parseColor_def)
  qed
  have c: "parseColor '''' = black" by code_simp
  have d: "parseColor ''purple'' = black" by code_simp
  from a b c d show ?thesis by blast
qed

theorem parseColor_default_black_witness:
  "\<not> startsWith ''hsl(red)'' ''#'' \<and> hsl_match ''hsl(red)'' = None \<and>
   parseColor ''hsl(red)'' = black \<and>
   startsWith ''#ff00'' ''#'' \<and>
   parseColor ''#ff00'' =
     [parseInt ''ff'' (Some 16) / Num 255, parseInt ''00'' (Some 16) / Num 255,
      parseInt '''' (Some 16) / Num 255, Num 1]"
proof -
  have a: "\<not> startsWith ''hsl(red)'' ''#''" by (simp add: startsWith_def)
  have b: "hsl_match ''hsl(red)'' = None" by code_simp
  have c: "startsWith ''#ff00'' ''#''" by (simp add: startsWith_def)
  have s: "slice 1 3 ''#ff00'' = ''ff''" "slice 3 5 ''#ff00'' = ''00''" "slice 5 7 ''#ff00'' = ''''"
    by (simp_all add: slice_def)
  from parseColor_default_black[of "''hsl(red)''"] parseColor_default_black[of "''#ff00''"] a b c
  show ?thesis unfolding s by blast
qed

text \<open>
  C6 as stated fails: \<open>#fff\<close> is neither \<open>#RRGGBB\<close> nor an HSL string, yet it
  begins with \<open>#\<close> and is read as hex: \<open>ff\<close> gives 255, \<open>f\<close> gives 15 and the
  empty slice gives \<open>NaN\<close>.
\<close>

theorem parseColor_short_hex_not_black:
  "length ''#fff'' \<noteq> 7 \<and> \<not> startsWith ''#fff'' ''hsl'' \<and>
   parseColor ''#fff'' = [Num 1, Num (1 / 17), NaN, Num 1] \<and>
   parseColor ''#fff'' \<noteq> black"
proof -
  have p: "parseColor ''#fff'' = [Num 1, Num (1 / 17), NaN, Num 1]" by code_simp
  have "\<not> startsWith ''#fff'' ''hsl''" by (simp add: startsWith_def)
  with p show ?thesis by (simp add: black_def)
qed

text \<open>
  C5, as the code has it. Take a string \<open>hsl(H, S%, L%)\<close> in which \<open>H\<close> is written in
  plain decimal notation (digits, with or without a fraction after a dot, no exponent)
  and has a value below 360, \<open>S\<close> and \<open>L\<close> are written in decimal digits and are
  at most 100, and each comma may have white space on either side. Then \<open>parseColor\<close>
  returns the standard conversion of \<open>(H, S/100, L/100)\<close> to RGB, followed by alpha
  1. When \<open>S\<close> is 0 the three channels are \<open>L/100\<close>. In particular
  \<open>hsl(0,100%,50%)\<close> gives \<open>(1, 0, 0, 1)\<close> and \<open>hsl(120,100%,50%)\<close> gives
  \<open>(0, 1, 0, 1)\<close>. The arithmetic is exact here; in doubles the channels agree
  with the conversion up to rounding.
\<close>

theorem parseColor_hsl:
  assumes "is_decimal ip" and "fp = [] \<or> is_decimal fp"
    and "is_decimal sd" and "is_decimal ld"
    and "list_all isWhiteSpace w1" and "list_all isWhiteSpace w2"
    and "list_all isWhiteSpace w3" and "list_all isWhiteSpace w4"
    and "hue_value ip fp < 360"
    and "decimal_value sd \<le> 100" and "decimal_value ld \<le> 100"
  shows "(case hsl_to_rgb_standard (hue_value ip fp) (real (decimal_value sd) / 100)
                (real (decimal_value ld) / 100) of
            (r, g, b) \<Rightarrow>
              parseColor (hsl_text (hue_text ip fp) w1 w2 sd w3 w4 ld) = [Num r, Num g, Num b, Num 1])
         \<and> (decimal_value sd = 0 \<longrightarrow>
              parseColor (hsl_text (hue_text ip fp) w1 w2 sd w3 w4 ld) =
                [Num (real (decimal_value ld) / 100), Num (real (decimal_value ld) / 100),
                 Num (real (decimal_value ld) / 100), Num 1])
         \<and> parseColor ''hsl(0,100%,50%)'' = [Num 1, Num 0, Num 0, Num 1]
         \<and> parseColor ''hsl(120,100%,50%)'' = [Num 0, Num 1, Num 0, Num 1]"
proof -
  let ?c = "hsl_text (hue_text ip fp) w1 w2 sd w3 w4 ld"
  let ?H = "hue_value ip fp"
  let ?s = "real (decimal_value sd) / 100"
  let ?l = "real (decimal_value ld) / 100"
  have m: "hsl_match ?c = Some (hue_text ip fp, sd, ld)"
    by (rule hsl_match_first, rule hsl_match_here_text)
       (use assms hue_text_props[OF assms(1,2)] in simp_all)
  have H0: "0 \<le> ?H" by (simp add: hue_value_def)
  have pf: "parseFloat (hue_text ip fp) = Num ?H"
    using parseFloat_hue[OF assms(1,2)] H0 assms(9) by (simp add: number_Num)
  have ps: "parseInt sd None = Num (real (decimal_value sd))"
    using parseInt_decimal[OF assms(3)] assms(10) by (simp add: number_Num)
  have pl: "parseInt ld None = Num (real (decimal_value ld))"
    using parseInt_decimal[OF assms(4)] assms(11) by (simp add: number_Num)
  have bs: "0 \<le> real (decimal_value sd)" "real (decimal_value sd) \<le> 100"
    and bl: "0 \<le> real (decimal_value ld)" "real (decimal_value ld) \<le> 100"
    using assms(10,11) by simp_all
  note pc = parseColor_matched[OF startsWith_hsl_text m pf ps pl H0 assms(9) bs bl]
  have zero: "parseColor ?c = [Num ?l, Num ?l, Num ?l, Num 1]" if "decimal_value sd = 0"
    using pc that by simp
  have std: "case hsl_to_rgb_standard ?H ?s ?l of
            (r, g, b) \<Rightarrow> parseColor ?c = [Num r, Num g, Num b, Num 1]"
  proof (cases "decimal_value sd = 0")
    case True
    then show ?thesis using zero by (simp add: hsl_standard_achromatic)
  next
    case False
    have s1: "0 \<le> ?s" "?s \<le> 1" and l1: "0 \<le> ?l" "?l \<le> 1" using bs bl by simp_all
    from False show ?thesis
      using hsl_channels[OF H0 assms(9) s1 l1] pc by (auto split: prod.splits)
  qed
  have red: "parseColor ''hsl(0,100%,50%)'' = [Num 1, Num 0, Num 0, Num 1]" by code_simp
  have green: "parseColor ''hsl(120,100%,50%)'' = [Num 0, Num 1, Num 0, Num 1]" by code_simp
  from std zero red green show ?thesis by blast
qed

theorem parseColor_hsl_witness:
  "is_decimal ''210'' \<and> is_decimal ''5'' \<and> is_decimal ''70'' \<and> is_decimal ''50'' \<and>
   list_all isWhiteSpace [] \<and> list_all isWhiteSpace '' '' \<and>
   hue_value ''210'' ''5'' < 360 \<and> decimal_value ''70'' \<le> 100 \<and> decimal_value ''50'' \<le> 100 \<and>
   hsl_to_rgb_standard (hue_value ''210'' ''5'') (real (decimal_value ''70'') / 100)
        (real (decimal_value ''50'') / 100) = (3 / 20, 593 / 1200, 17 / 20) \<and>
   parseColor ''hsl(210.5, 70%, 50%)'' = [Num (3 / 20), Num (593 / 1200), Num (17 / 20), Num 1]"
proof -
  have d: "is_decimal ''210''" "is_decimal ''5''" "is_decimal ''70''" "is_decimal ''50''"
    by (simp_all add: is_decimal_def)
  have w: "list_all isWhiteSpace []" "list_all isWhiteSpace '' ''"
    by (simp_all add: isWhiteSpace_def)
  have v: "hue_value ''210'' ''5'' = 421 / 2" "decimal_value ''70'' = 70" "decimal_value ''50'' = 50"
    by (simp_all add: hue_value_def decimal_value_def)
  have h: "hue_value ''210'' ''5'' < 360" by (simp add: v)
  have b: "decimal_value ''70'' \<le> 100" "decimal_value ''50'' \<le> 100" by (simp_all add: v)
  have f: "\<lfloor>(421 / 2 / 60 / 2 :: real)\<rfloor> = 1"
    by (rule floor_unique) simp_all
  have s: "hsl_to_rgb_standard (421 / 2) (70 / 100) (50 / 100) = (3 / 20, 593 / 1200, 17 / 20)"
    by (simp add: hsl_to_rgb_standard_def Let_def f)
  have t: "hsl_text (hue_text ''210'' ''5'') [] '' '' ''70'' [] '' '' ''50'' = ''hsl(210.5, 70%, 50%)''"
    by (simp add: hsl_text_def hue_text_def)
  from parseColor_hsl[OF d(1) disjI2[OF d(2)] d(3,4) w(1,2) w(1,2) h b] d w h b s
  show ?thesis unfolding t v by simp
qed

text \<open>
  C5 as stated fails: a hue below \<open>1e-6\<close>, which \<open>Particle\<close> can write into its
  colour, is printed with an exponent. The pattern reads \<open>1.5\<close> and then meets
  \<open>e\<close>, so it does not match, and the colour is black instead of the red that the
  conversion gives.
\<close>

theorem parseColor_exponent_hue_black:
  "parseColor ''hsl(1.5e-7, 70%, 50%)'' = black \<and>
   fst (hsl_to_rgb_standard (15 / 10 ^ 8) (70 / 100) (50 / 100)) = 17 / 20"
proof -
  have "parseColor ''hsl(1.5e-7, 70%, 50%)'' = black" by code_simp
  moreover have "fst (hsl_to_rgb_standard (15 / 10 ^ 8) (70 / 100) (50 / 100)) = 17 / 20"
    by (simp add: hsl_to_rgb_standard_def Let_def)
  ultimately show ?thesis by simp
qed




end
